theory Spec2Isabelle
  imports Main "HOL-Library.Word"
begin

section \<open>The Open Graph image handler (src/pages/api/opengraph/image.ts)\<close>

text \<open>
  The handler is one asynchronous function over a request, a response object and a
  headless browser. The embedding keeps the handler's control flow (validation, the
  \<^verbatim>\<open>try\<close>/\<^verbatim>\<open>catch\<close>/\<^verbatim>\<open>finally\<close> statement, every awaited call
  in source order) and makes the outside world explicit: the outcome of every awaited call
  is read from a \<open>world\<close> record, and every call made on the response object, on the
  browser and on the console is appended to a trace held in the handler's state.
\<close>

subsection \<open>JavaScript values the handler reads\<close>

text \<open>
  A query parameter of a \<^verbatim>\<open>NextApiRequest\<close> is \<^verbatim>\<open>string | string[] | undefined\<close>;
  \<open>None\<close> is \<^verbatim>\<open>undefined\<close>. A string is held as the bytes of its UTF-8 encoding, which
  is what the query string carries once it is percent-decoded (\<^verbatim>\<open>%C2%A0\<close> is the two
  bytes of U+00A0; bytes that are not well-formed UTF-8 reach the handler as U+FFFD, so they
  do not occur here). The patterns of the allow-list name ASCII characters only, and in
  UTF-8 no character outside ASCII has a byte below 128, so they are matched byte by byte.
  The white space \<^verbatim>\<open>parseInt\<close> skips has characters outside ASCII; they are recognised by
  their encodings.
\<close>

datatype qval = Str string | Arr "string list"

record request =
  query :: "string \<rightharpoonup> qval"

text \<open>\<^verbatim>\<open>Array.prototype.join(",")\<close>, which is what \<^verbatim>\<open>toString\<close> of an array does.\<close>

fun join :: "string list \<Rightarrow> string" where
  "join [] = []"
| "join [x] = x"
| "join (x # y # ys) = x @ '','' @ join (y # ys)"

text \<open>\<^verbatim>\<open>ToString\<close> of a query parameter (the coercion \<^verbatim>\<open>RegExp.prototype.test\<close>,
  \<^verbatim>\<open>parseInt\<close> and \<^verbatim>\<open>url.toString()\<close> apply).\<close>

fun toString :: "qval option \<Rightarrow> string" where
  "toString None = ''undefined''"
| "toString (Some (Str s)) = s"
| "toString (Some (Arr xs)) = join xs"

text \<open>\<^verbatim>\<open>ToBoolean\<close>: \<^verbatim>\<open>undefined\<close> and the empty string are falsy, every array is truthy.\<close>

fun truthy :: "qval option \<Rightarrow> bool" where
  "truthy None = False"
| "truthy (Some (Str s)) = (s \<noteq> [])"
| "truthy (Some (Arr xs)) = True"

text \<open>
  The JavaScript numbers the handler meets: what \<^verbatim>\<open>parseInt\<close> returns and the literals
  1 and 70. That is \<^verbatim>\<open>NaN\<close>, an integer that a double holds exactly, or an infinity.
  \<open>Num 0\<close> stands for both zeros; the handler does not tell them apart, both are falsy.
\<close>

datatype jsnum = NaN | Num int | PosInfinity | NegInfinity

text \<open>\<^verbatim>\<open>x || d\<close> on numbers: \<^verbatim>\<open>NaN\<close> and the zeros are falsy, everything else is
  truthy, the infinities too.\<close>

fun or_default :: "jsnum \<Rightarrow> jsnum \<Rightarrow> jsnum" where
  "or_default NaN d = d"
| "or_default (Num n) d = (if n = 0 then d else Num n)"
| "or_default PosInfinity d = PosInfinity"
| "or_default NegInfinity d = NegInfinity"

subsection \<open>\<^verbatim>\<open>parseInt\<close> with no radix argument\<close>

definition code :: "char \<Rightarrow> nat" where
  "code c = of_char c"

text \<open>
  The characters \<^verbatim>\<open>parseInt\<close> skips at the start (\<^verbatim>\<open>StrWhiteSpaceChar\<close>: white space
  and line terminators), each by its UTF-8 bytes: U+0009 to U+000D, U+0020; U+00A0; U+1680;
  U+2000 to U+200A; U+2028, U+2029; U+202F; U+205F; U+3000; U+FEFF.
\<close>

definition whiteSpace :: "nat list list" where
  "whiteSpace =
     [[9], [10], [11], [12], [13], [32],
      [194, 160],
      [225, 154, 128],
      [226, 128, 128], [226, 128, 129], [226, 128, 130], [226, 128, 131], [226, 128, 132],
      [226, 128, 133], [226, 128, 134], [226, 128, 135], [226, 128, 136], [226, 128, 137],
      [226, 128, 138],
      [226, 128, 168], [226, 128, 169],
      [226, 128, 175],
      [226, 129, 159],
      [227, 128, 128],
      [239, 187, 191]]"

text \<open>The number of bytes of the white space character a string starts with, 0 when it
  starts with none.\<close>

definition whiteSpaceAt :: "string \<Rightarrow> nat" where
  "whiteSpaceAt s =
     (case find (\<lambda>ws. take (length ws) (map code s) = ws) whiteSpace of
        None \<Rightarrow> 0
      | Some ws \<Rightarrow> length ws)"

function skipWhiteSpace :: "string \<Rightarrow> string" where
  "skipWhiteSpace s =
     (if whiteSpaceAt s = 0 then s else skipWhiteSpace (drop (whiteSpaceAt s) s))"
  by pat_completeness auto
termination
proof (relation "measure length")
  show "wf (measure length)" by simp
next
  fix s :: string
  assume a: "whiteSpaceAt s \<noteq> 0"
  have "s \<noteq> []"
  proof
    assume "s = []"
    then have "whiteSpaceAt s = 0" by (simp add: whiteSpaceAt_def whiteSpace_def)
    with a show False by simp
  qed
  with a show "(drop (whiteSpaceAt s) s, s) \<in> measure length" by simp
qed

declare skipWhiteSpace.simps [simp del]

text \<open>The value of a digit in radix 10 or 16, \<open>None\<close> when the character is not one.\<close>

definition digitValue :: "nat \<Rightarrow> char \<Rightarrow> nat option" where
  "digitValue radix c =
     (let n = code c in
      if 48 \<le> n \<and> n \<le> 57 then Some (n - 48)
      else if radix = 16 \<and> 97 \<le> n \<and> n \<le> 102 then Some (n - 87)
      else if radix = 16 \<and> 65 \<le> n \<and> n \<le> 70 then Some (n - 55)
      else None)"

text \<open>The longest prefix of digits, read left to right; \<open>None\<close> when it is empty.\<close>

fun parseDigits :: "nat \<Rightarrow> nat option \<Rightarrow> string \<Rightarrow> nat option" where
  "parseDigits radix acc [] = acc"
| "parseDigits radix acc (c # cs) =
     (case digitValue radix c of
        None \<Rightarrow> acc
      | Some d \<Rightarrow> parseDigits radix (Some ((case acc of None \<Rightarrow> 0 | Some a \<Rightarrow> a) * radix + d)) cs)"

text \<open>
  The number of an integer given by sign and magnitude: the nearest double, ties to the even
  significand of 53 bits, and an infinity from \<open>2^1024 - 2^970\<close> on. Up to \<open>2^53\<close> it is the
  integer itself.
\<close>

fun bitLength :: "nat \<Rightarrow> nat" where
  "bitLength n = (if n = 0 then 0 else Suc (bitLength (n div 2)))"

declare bitLength.simps [simp del]

definition toNumber :: "int \<Rightarrow> nat \<Rightarrow> jsnum" where
  "toNumber sign m =
     (if m < 2 ^ 53 then Num (sign * int m)
      else
        let e = bitLength m - 53;
            q = m div 2 ^ e;
            r = m mod 2 ^ e;
            q' = (if 2 ^ e < 2 * r \<or> (2 * r = 2 ^ e \<and> odd q) then q + 1 else q)
        in if 2 ^ 1024 \<le> q' * 2 ^ e
           then (if sign < 0 then NegInfinity else PosInfinity)
           else Num (sign * int (q' * 2 ^ e)))"

definition parseInt :: "string \<Rightarrow> jsnum" where
  "parseInt inputString =
     (let s = skipWhiteSpace inputString;
          sign = (if s \<noteq> [] \<and> hd s = CHR ''-'' then - 1 else (1::int));
          s1 = (if s \<noteq> [] \<and> (hd s = CHR ''+'' \<or> hd s = CHR ''-'') then tl s else s);
          hex = (take 2 s1 = ''0x'' \<or> take 2 s1 = ''0X'');
          radix = (if hex then 16 else 10);
          s2 = (if hex then drop 2 s1 else s1)
      in case parseDigits radix None s2 of
           None \<Rightarrow> NaN
         | Some n \<Rightarrow> toNumber sign n)"

text \<open>A template literal's \<^verbatim>\<open>${n}\<close> for a natural number: its decimal digits.\<close>

fun decimal :: "nat \<Rightarrow> string" where
  "decimal n = (if n < 10 then [char_of (48 + n)] else decimal (n div 10) @ [char_of (48 + n mod 10)])"

declare decimal.simps [simp del]

subsection \<open>The allow-list patterns\<close>

text \<open>
  The three regular expressions use literals, the classes \<^verbatim>\<open>[\w-]\<close> and \<^verbatim>\<open>\d\<close>
  under \<^verbatim>\<open>+\<close>, optional groups and concatenation; each starts with \<^verbatim>\<open>^\<close>, none
  ends with \<^verbatim>\<open>$\<close>, and each carries the flag \<^verbatim>\<open>i\<close>.
\<close>

datatype cclass = WordOrDash | Digit

datatype rx = Lit string | Plus cclass | Opt rx | Seq rx rx

text \<open>The flag \<^verbatim>\<open>i\<close> compares canonical forms: ASCII lower case letters go to upper
  case, and no character outside ASCII is canonicalized into ASCII. The canonical form is
  given by its character code.\<close>

definition canonicalize :: "char \<Rightarrow> nat" where
  "canonicalize c = (if 97 \<le> code c \<and> code c \<le> 122 then code c - 32 else code c)"

fun inClass :: "cclass \<Rightarrow> char \<Rightarrow> bool" where
  "inClass WordOrDash c =
     (let n = code c in
      (48 \<le> n \<and> n \<le> 57) \<or> (65 \<le> n \<and> n \<le> 90) \<or> (97 \<le> n \<and> n \<le> 122) \<or> n = 95 \<or> n = 45)"
| "inClass Digit c = (48 \<le> code c \<and> code c \<le> 57)"

text \<open>A literal matches when the input starts with it, up to canonical forms.\<close>

fun matchLit :: "string \<Rightarrow> string \<Rightarrow> string option" where
  "matchLit [] s = Some s"
| "matchLit (l # ls) [] = None"
| "matchLit (l # ls) (c # cs) =
     (if canonicalize l = canonicalize c then matchLit ls cs else None)"

text \<open>Zero or more characters of a class: every remainder, the greedy one first.\<close>

fun star :: "cclass \<Rightarrow> string \<Rightarrow> string list" where
  "star k [] = [[]]"
| "star k (c # cs) = (if inClass k c then star k cs @ [c # cs] else [c # cs])"

text \<open>
  The backtracking matcher: every remainder the input can be left with after a match of
  the pattern at its start, in the order the engine tries them.
\<close>

fun rx_match :: "rx \<Rightarrow> string \<Rightarrow> string list" where
  "rx_match (Lit l) s = (case matchLit l s of None \<Rightarrow> [] | Some r \<Rightarrow> [r])"
| "rx_match (Plus k) s =
     (case s of [] \<Rightarrow> [] | c # cs \<Rightarrow> if inClass k c then star k cs else [])"
| "rx_match (Opt r) s = rx_match r s @ [s]"
| "rx_match (Seq a b) s = concat (map (rx_match b) (rx_match a s))"

text \<open>\<^verbatim>\<open>RegExp.prototype.test\<close> for a pattern anchored at the start (no flag \<^verbatim>\<open>g\<close> or
  \<^verbatim>\<open>y\<close>, so there is no state between calls).\<close>

definition test :: "rx \<Rightarrow> string \<Rightarrow> bool" where
  "test r s = (rx_match r s \<noteq> [])"

text \<open>\<^verbatim>\<open>/^https:\/\/([\w-]+\.)?okpc\.app\//i\<close>\<close>

definition okpc_app :: rx where
  "okpc_app = Seq (Lit ''https://'') (Seq (Opt (Seq (Plus WordOrDash) (Lit ''.''))) (Lit ''okpc.app/''))"

text \<open>\<^verbatim>\<open>/^https:\/\/[\w-]+-okpc\.vercel\.app\//i\<close>\<close>

definition okpc_vercel :: rx where
  "okpc_vercel = Seq (Lit ''https://'') (Seq (Plus WordOrDash) (Lit ''-okpc.vercel.app/''))"

text \<open>\<^verbatim>\<open>/^http:\/\/localhost(:\d+)?\//i\<close>\<close>

definition localhost :: rx where
  "localhost = Seq (Lit ''http://localhost'') (Seq (Opt (Seq (Lit '':'') (Plus Digit))) (Lit ''/''))"

text \<open>The module's list after its load-time \<^verbatim>\<open>push\<close>; the argument is
  \<^verbatim>\<open>process.env.NODE_ENV\<close>.\<close>

definition allowedHostnames :: "string option \<Rightarrow> rx list" where
  "allowedHostnames node_env =
     [okpc_app, okpc_vercel] @ (if node_env \<noteq> Some ''production'' then [localhost] else [])"

text \<open>\<^verbatim>\<open>allowedHostnames.some((hostname) => hostname.test(url))\<close>\<close>

definition allowed :: "string option \<Rightarrow> string \<Rightarrow> bool" where
  "allowed node_env url = list_ex (\<lambda>hostname. test hostname url) (allowedHostnames node_env)"

text \<open>\<^verbatim>\<open>includes(allowedFormats, value)\<close>: \<^verbatim>\<open>Array.prototype.includes\<close> compares with
  \<^verbatim>\<open>SameValueZero\<close>, so only a string can be found in an array of strings.\<close>

definition allowedFormats :: "string list" where
  "allowedFormats = [''png'', ''jpeg'', ''webp'']"

fun includes_value :: "string list \<Rightarrow> qval option \<Rightarrow> bool" where
  "includes_value values (Some (Str v)) = (v \<in> set values)"
| "includes_value values _ = False"

subsection \<open>The outside world\<close>

text \<open>
  A thrown value is an \<^verbatim>\<open>Error\<close> object: a name and a message.
  \<^verbatim>\<open>Error.prototype.toString\<close> joins them.
\<close>

record js_error =
  name :: string
  message :: string

definition error_toString :: "js_error \<Rightarrow> string" where
  "error_toString e =
     (if name e = [] then message e
      else if message e = [] then name e
      else name e @ '': '' @ message e)"

text \<open>\<^verbatim>\<open>new Error(msg)\<close>\<close>

definition new_Error :: "string \<Rightarrow> js_error" where
  "new_Error msg = \<lparr>name = ''Error'', message = msg\<rparr>"

type_synonym buffer = "8 word list"

record launch_options =
  lo_executablePath :: "string option"
  lo_args :: "string list"
  lo_headless :: bool
  lo_ignoreHTTPSErrors :: bool

record viewport =
  width :: nat
  height :: nat
  deviceScaleFactor :: jsnum

record screenshot_options =
  so_type :: string
  so_quality :: "jsnum option"

text \<open>
  What every awaited call resolves to (\<open>Inr\<close>) or rejects with (\<open>Inl\<close>), possibly
  depending on its arguments. \<open>chromium_executablePath\<close> resolves to a path or to
  \<^verbatim>\<open>null\<close>/\<^verbatim>\<open>undefined\<close> (\<open>None\<close>); \<open>query_selector\<close> is \<^verbatim>\<open>page.$\<close>, which resolves
  to an element (\<open>True\<close>) or to \<^verbatim>\<open>null\<close> (\<open>False\<close>).
\<close>

record world =
  chromium_executablePath :: "js_error + string option"
  chromium_args :: "string list"
  chromium_headless :: bool
  import_puppeteer :: "js_error + unit"
  puppeteer_launch :: "launch_options \<Rightarrow> js_error + unit"
  chromium_puppeteer_launch :: "launch_options \<Rightarrow> js_error + unit"
  newPage :: "js_error + unit"
  setViewport :: "viewport \<Rightarrow> js_error + unit"
  goto :: "string \<Rightarrow> js_error + unit"
  waitForNetworkIdle :: "js_error + unit"
  waitForSelector :: "string \<Rightarrow> nat \<Rightarrow> js_error + unit"
  query_selector :: "string \<Rightarrow> js_error + bool"
  screenshot :: "screenshot_options \<Rightarrow> js_error + buffer"
  close :: "js_error + unit"

text \<open>The calls the handler makes on the response object.\<close>

datatype json = JString string | JObject "(string \<times> json) list"

datatype res_call =
    Status nat
  | Json json
  | SetHeader string string
  | Send buffer
  | Redirect string

text \<open>The calls the handler makes on the browser library, the browser and its page.\<close>

datatype browser_call =
    ExecutablePath
  | ImportPuppeteer
  | PuppeteerLaunch launch_options
  | ChromiumPuppeteerLaunch launch_options
  | NewPage
  | SetViewport viewport
  | SetDefaultNavigationTimeout nat
  | Goto string
  | WaitForNetworkIdle
  | WaitForSelector string nat
  | QuerySelector string
  | Screenshot screenshot_options
  | Close

text \<open>
  The state of one invocation: the handler's local variable \<^verbatim>\<open>browser\<close> (whether it is
  not \<^verbatim>\<open>null\<close>), the traces of calls in program order, what was written with
  \<^verbatim>\<open>console.error\<close>, and the number of browser processes started and closed.
\<close>

record hstate =
  browser :: bool
  res :: "res_call list"
  calls :: "browser_call list"
  console :: "(string \<times> js_error) list"
  created :: nat
  closed :: nat

definition init :: hstate where
  "init = \<lparr>browser = False, res = [], calls = [], console = [], created = 0, closed = 0\<rparr>"

text \<open>An asynchronous computation: it resolves or rejects, and leaves a state.\<close>

type_synonym 'a io = "hstate \<Rightarrow> (js_error + 'a) \<times> hstate"

definition ret :: "'a \<Rightarrow> 'a io" where
  "ret x s = (Inr x, s)"

definition throw :: "js_error \<Rightarrow> 'a io" where
  "throw e s = (Inl e, s)"

definition bnd :: "'a io \<Rightarrow> ('a \<Rightarrow> 'b io) \<Rightarrow> 'b io" where
  "bnd m f s = (case m s of (Inl e, s') \<Rightarrow> (Inl e, s') | (Inr x, s') \<Rightarrow> f x s')"

text \<open>A call on the browser side: it is recorded, and the world decides its outcome.\<close>

definition await :: "browser_call \<Rightarrow> js_error + 'a \<Rightarrow> 'a io" where
  "await c outcome s = (outcome, s\<lparr>calls := calls s @ [c]\<rparr>)"

text \<open>A call on the response object: it is recorded and returns.\<close>

definition respond :: "res_call \<Rightarrow> unit io" where
  "respond c s = (Inr (), s\<lparr>res := res s @ [c]\<rparr>)"

definition console_error :: "string \<Rightarrow> js_error \<Rightarrow> unit io" where
  "console_error msg e s = (Inr (), s\<lparr>console := console s @ [(msg, e)]\<rparr>)"

text \<open>A launch that resolves has started one browser process.\<close>

definition started :: "js_error + unit \<Rightarrow> unit io" where
  "started outcome s =
     (outcome, (case outcome of Inl e \<Rightarrow> s | Inr u \<Rightarrow> s\<lparr>created := created s + 1\<rparr>))"

text \<open>\<^verbatim>\<open>browser.close()\<close>: the call is counted, whatever it resolves to.\<close>

definition browser_close :: "world \<Rightarrow> unit io" where
  "browser_close w s = (close w, s\<lparr>calls := calls s @ [Close], closed := closed s + 1\<rparr>)"

text \<open>
  \<^verbatim>\<open>try { body } catch (error) { handler } finally { fin }\<close>: the finally block runs on
  every path; when it throws, its error replaces the completion of the rest.
\<close>

definition try_catch_finally :: "unit io \<Rightarrow> (js_error \<Rightarrow> unit io) \<Rightarrow> unit io \<Rightarrow> unit io" where
  "try_catch_finally body catch fin s =
     (case (case body s of (Inl e, s1) \<Rightarrow> catch e s1 | (Inr x, s1) \<Rightarrow> (Inr x, s1)) of
        (r, s2) \<Rightarrow> (case fin s2 of (Inl e', s3) \<Rightarrow> (Inl e', s3) | (Inr y, s3) \<Rightarrow> (r, s3)))"

subsection \<open>getBrowserInstance\<close>

definition getBrowserInstance :: "world \<Rightarrow> unit io" where
  "getBrowserInstance w =
     bnd (await ExecutablePath (chromium_executablePath w)) (\<lambda>executablePath.
       if executablePath = None \<or> executablePath = Some [] then
         bnd (await ImportPuppeteer (import_puppeteer w)) (\<lambda>puppeteer.
           let opts = \<lparr>lo_executablePath = None, lo_args = chromium_args w,
                       lo_headless = True, lo_ignoreHTTPSErrors = True\<rparr>
           in bnd (await (PuppeteerLaunch opts) (Inr ())) (\<lambda>_. started (puppeteer_launch w opts)))
       else
         let opts = \<lparr>lo_executablePath = executablePath, lo_args = chromium_args w,
                     lo_headless = chromium_headless w, lo_ignoreHTTPSErrors = True\<rparr>
         in bnd (await (ChromiumPuppeteerLaunch opts) (Inr ())) (\<lambda>_. started (chromium_puppeteer_launch w opts)))"

subsection \<open>handler\<close>

definition missing_url :: json where
  "missing_url = JObject [(''error'', JObject [(''code'', JString ''MISSING_URL'')])]"

definition invalid_url :: json where
  "invalid_url = JObject [(''error'', JObject [(''code'', JString ''INVALID_URL'')])]"

definition unexpected_error :: "js_error \<Rightarrow> json" where
  "unexpected_error error =
     JObject [(''error'', JObject [(''code'', JString ''UNEXPECTED_ERROR''),
                                   (''message'', JString (error_toString error))])]"

text \<open>The four values the handler computes from the query after validation.\<close>

definition fallback_of :: "request \<Rightarrow> string option" where
  "fallback_of req = (case query req ''fallback'' of Some (Str f) \<Rightarrow> Some f | _ \<Rightarrow> None)"

definition pixelDensity_of :: "request \<Rightarrow> jsnum" where
  "pixelDensity_of req = or_default (parseInt (toString (query req ''pixelDensity''))) (Num 1)"

definition format_of :: "request \<Rightarrow> string" where
  "format_of req =
     (if includes_value allowedFormats (query req ''format'')
      then toString (query req ''format'') else ''png'')"

definition quality_of :: "request \<Rightarrow> jsnum" where
  "quality_of req = or_default (parseInt (toString (query req ''quality''))) (Num 70)"

definition cache_control :: string where
  "cache_control =
     ''s-maxage='' @ decimal (60 * 60 * 8) @ '', stale-while-revalidate='' @ decimal (60 * 60 * 24)"

text \<open>The body of the \<^verbatim>\<open>try\<close> block.\<close>

definition try_block :: "world \<Rightarrow> string \<Rightarrow> jsnum \<Rightarrow> string \<Rightarrow> jsnum \<Rightarrow> unit io" where
  "try_block w url pixelDensity format quality =
     bnd (getBrowserInstance w) (\<lambda>b.
     bnd (\<lambda>s. (Inr (), s\<lparr>browser := True\<rparr>)) (\<lambda>_.
     bnd (await NewPage (newPage w)) (\<lambda>page.
     let vp = \<lparr>width = 1280, height = 720, deviceScaleFactor = pixelDensity\<rparr> in
     bnd (await (SetViewport vp) (setViewport w vp)) (\<lambda>_.
     bnd (await (SetDefaultNavigationTimeout (1000 * 10)) (Inr ())) (\<lambda>_.
     bnd (await (Goto url) (goto w url)) (\<lambda>_.
     bnd (await WaitForNetworkIdle (waitForNetworkIdle w)) (\<lambda>_.
     bnd (await (WaitForSelector ''#opengraph-image'' 500)
            (waitForSelector w ''#opengraph-image'' 500)) (\<lambda>_.
     bnd (await (QuerySelector ''#opengraph-image'') (query_selector w ''#opengraph-image''))
       (\<lambda>element.
     bnd (if \<not> element then throw (new_Error ''No #opengraph-image element found at path'')
          else ret ()) (\<lambda>_.
     let so = \<lparr>so_type = format,
                so_quality = (if format = ''png'' then None else Some quality)\<rparr> in
     bnd (await (Screenshot so) (screenshot w so)) (\<lambda>imageBuffer.
     bnd (respond (SetHeader ''Cache-Control'' cache_control)) (\<lambda>_.
     bnd (respond (SetHeader ''Content-Type'' (''image/'' @ format))) (\<lambda>_.
     respond (Send imageBuffer))))))))))))))"

text \<open>The \<^verbatim>\<open>catch\<close> block; \<^verbatim>\<open>if (fallback)\<close> holds for a non-empty string.\<close>

definition catch_block :: "string option \<Rightarrow> js_error \<Rightarrow> unit io" where
  "catch_block fallback error =
     bnd (console_error ''error while generating opengraph image'' error) (\<lambda>_.
     case fallback of
       Some f \<Rightarrow>
         if f \<noteq> [] then respond (Redirect f)
         else bnd (respond (Status 500)) (\<lambda>_. respond (Json (unexpected_error error)))
     | None \<Rightarrow> bnd (respond (Status 500)) (\<lambda>_. respond (Json (unexpected_error error))))"

text \<open>The \<^verbatim>\<open>finally\<close> block.\<close>

definition finally_block :: "world \<Rightarrow> unit io" where
  "finally_block w s = (if browser s then browser_close w s else ret () s)"

text \<open>
  The handler, run from the initial state. The first argument is
  \<^verbatim>\<open>process.env.NODE_ENV\<close>. The result is how the returned promise settles and the
  final state.
\<close>

definition handler :: "string option \<Rightarrow> world \<Rightarrow> request \<Rightarrow> (js_error + unit) \<times> hstate" where
  "handler node_env w req =
     (let url = query req ''url'' in
      if \<not> truthy url then
        bnd (respond (Status 400)) (\<lambda>_. respond (Json missing_url)) init
      else if \<not> allowed node_env (toString url) then
        bnd (respond (Status 400)) (\<lambda>_. respond (Json invalid_url)) init
      else
        let fallback = fallback_of req;
            pixelDensity = pixelDensity_of req;
            format = format_of req;
            quality = quality_of req
        in try_catch_finally
             (try_block w (toString url) pixelDensity format quality)
             (catch_block fallback)
             (finally_block w) init)"

subsection \<open>Notions used to state the properties\<close>

text \<open>A request passes validation: both guards at the head of the handler let it through.\<close>

definition valid :: "string option \<Rightarrow> request \<Rightarrow> bool" where
  "valid node_env req =
     (truthy (query req ''url'') \<and> allowed node_env (toString (query req ''url'')))"

text \<open>The \<^verbatim>\<open>try\<close> block as the handler runs it for a request.\<close>

definition pipeline :: "world \<Rightarrow> request \<Rightarrow> (js_error + unit) \<times> hstate" where
  "pipeline w req =
     try_block w (toString (query req ''url'')) (pixelDensity_of req) (format_of req)
       (quality_of req) init"

text \<open>Two strings are equal up to the case of ASCII letters.\<close>

definition ci :: "string \<Rightarrow> string \<Rightarrow> bool" where
  "ci p l = (map canonicalize p = map canonicalize l)"

text \<open>The characters the patterns admit between the scheme and the first slash.\<close>

definition hostChar :: "char \<Rightarrow> bool" where
  "hostChar c = (inClass WordOrDash c \<or> c = CHR ''.'' \<or> c = CHR '':'')"

definition hostShaped :: "string \<Rightarrow> bool" where
  "hostShaped u =
     (\<exists>sch host rest. u = sch @ host @ ''/'' @ rest \<and>
        (ci sch ''https://'' \<or> ci sch ''http://'') \<and> host \<noteq> [] \<and> (\<forall>c\<in>set host. hostChar c))"

text \<open>What the \<^verbatim>\<open>catch\<close> block writes to the response.\<close>

definition catch_response :: "request \<Rightarrow> js_error \<Rightarrow> res_call list" where
  "catch_response req e =
     (case fallback_of req of
        Some f \<Rightarrow> if f \<noteq> [] then [Redirect f] else [Status 500, Json (unexpected_error e)]
      | None \<Rightarrow> [Status 500, Json (unexpected_error e)])"

subsection \<open>Example worlds and requests\<close>

text \<open>A local run in which every call resolves and the element is found.\<close>

definition world_ok :: world where
  "world_ok =
     \<lparr>chromium_executablePath = Inr None,
      chromium_args = [''--no-sandbox''],
      chromium_headless = True,
      import_puppeteer = Inr (),
      puppeteer_launch = (\<lambda>opts. Inr ()),
      chromium_puppeteer_launch = (\<lambda>opts. Inr ()),
      newPage = Inr (),
      setViewport = (\<lambda>vp. Inr ()),
      goto = (\<lambda>url. Inr ()),
      waitForNetworkIdle = Inr (),
      waitForSelector = (\<lambda>selector timeout. Inr ()),
      query_selector = (\<lambda>selector. Inr True),
      screenshot = (\<lambda>opts. Inr [137, 80, 78, 71]),
      close = Inr ()\<rparr>"

text \<open>The page has no \<^verbatim>\<open>#opengraph-image\<close> element.\<close>

definition world_no_element :: world where
  "world_no_element = world_ok\<lparr>query_selector := (\<lambda>selector. Inr False)\<rparr>"

text \<open>The browser does not start.\<close>

definition world_no_browser :: world where
  "world_no_browser =
     world_ok\<lparr>puppeteer_launch :=
       (\<lambda>opts. Inl \<lparr>name = ''Error'', message = ''Failed to launch the browser process''\<rparr>)\<rparr>"

definition request_of :: "(string \<times> qval) list \<Rightarrow> request" where
  "request_of params = \<lparr>query = map_of params\<rparr>"

section \<open>Lemmas\<close>

subsection \<open>The matcher\<close>

lemma code_inj: "code c = code d \<Longrightarrow> c = d"
  by (simp add: code_def)

lemma canon_class: "canonicalize c = canonicalize d \<Longrightarrow> inClass k c = inClass k d"
  by (cases k) (auto simp: canonicalize_def Let_def split: if_splits)

lemma canon_slash: "canonicalize c = canonicalize d \<Longrightarrow> (c = CHR ''/'') = (d = CHR ''/'')"
proof -
  assume h: "canonicalize c = canonicalize d"
  have a: "\<And>x. (x = CHR ''/'') = (code x = 47)" using code_inj [of _ "CHR ''/''"] by (auto simp: code_def)
  show ?thesis using h unfolding a by (auto simp: canonicalize_def split: if_splits)
qed

lemma canon_hostChar: "canonicalize c = canonicalize d \<Longrightarrow> hostChar c = hostChar d"
proof -
  assume h: "canonicalize c = canonicalize d"
  have a: "\<And>x. (x = CHR ''.'') = (code x = 46)" using code_inj [of _ "CHR ''.''"] by (auto simp: code_def)
  have b: "\<And>x. (x = CHR '':'') = (code x = 58)" using code_inj [of _ "CHR '':''"] by (auto simp: code_def)
  show ?thesis using h unfolding hostChar_def a b by (auto simp: canonicalize_def Let_def split: if_splits)
qed

lemma matchLit_iff: "matchLit l s = Some r \<longleftrightarrow> (\<exists>p. s = p @ r \<and> ci p l)"
proof (induction l s rule: matchLit.induct)
  case (1 s)
  then show ?case by (simp add: ci_def)
next
  case (2 l ls)
  then show ?case by (auto simp: ci_def)
next
  case (3 l ls c cs)
  show ?case
  proof
    assume "matchLit (l # ls) (c # cs) = Some r"
    then have e: "canonicalize l = canonicalize c" and m: "matchLit ls cs = Some r"
      by (auto split: if_splits)
    from m 3 e obtain p where "cs = p @ r" "ci p ls" by auto
    with e have "c # cs = (c # p) @ r \<and> ci (c # p) (l # ls)" by (simp add: ci_def)
    then show "\<exists>p. c # cs = p @ r \<and> ci p (l # ls)" by blast
  next
    assume "\<exists>p. c # cs = p @ r \<and> ci p (l # ls)"
    then obtain p where p: "c # cs = p @ r" "ci p (l # ls)" by blast
    then obtain p' where p': "p = c # p'" "cs = p' @ r" by (cases p) (auto simp: ci_def)
    with p have e: "canonicalize l = canonicalize c" and "ci p' ls" by (auto simp: ci_def)
    with p' 3 show "matchLit (l # ls) (c # cs) = Some r" by auto
  qed
qed

lemma star_iff: "r \<in> set (star k s) \<longleftrightarrow> (\<exists>p. s = p @ r \<and> (\<forall>c\<in>set p. inClass k c))"
proof (induction s)
  case Nil
  then show ?case by auto
next
  case (Cons c cs)
  show ?case
  proof
    assume "r \<in> set (star k (c # cs))"
    then consider "r = c # cs" | "inClass k c" "r \<in> set (star k cs)" by (auto split: if_splits)
    then show "\<exists>p. c # cs = p @ r \<and> (\<forall>c\<in>set p. inClass k c)"
    proof cases
      case 1
      then have "c # cs = [] @ r \<and> (\<forall>c\<in>set []. inClass k c)" by simp
      then show ?thesis by blast
    next
      case 2
      with Cons obtain p where "cs = p @ r" "\<forall>c\<in>set p. inClass k c" by auto
      with 2 have "c # cs = (c # p) @ r \<and> (\<forall>x\<in>set (c # p). inClass k x)" by simp
      then show ?thesis by blast
    qed
  next
    assume "\<exists>p. c # cs = p @ r \<and> (\<forall>c\<in>set p. inClass k c)"
    then obtain p where p: "c # cs = p @ r" "\<forall>c\<in>set p. inClass k c" by blast
    show "r \<in> set (star k (c # cs))"
    proof (cases p)
      case Nil
      with p show ?thesis by auto
    next
      case (Cons x xs)
      with p have "x = c" "cs = xs @ r" "inClass k c" "\<forall>c\<in>set xs. inClass k c" by auto
      with Cons.IH show ?thesis by auto
    qed
  qed
qed

lemma plus_iff:
  "r \<in> set (rx_match (Plus k) s) \<longleftrightarrow> (\<exists>p. p \<noteq> [] \<and> s = p @ r \<and> (\<forall>c\<in>set p. inClass k c))"
proof
  assume "r \<in> set (rx_match (Plus k) s)"
  then obtain c cs where s: "s = c # cs" "inClass k c" "r \<in> set (star k cs)"
    by (auto split: list.splits if_splits)
  then obtain p where "cs = p @ r" "\<forall>c\<in>set p. inClass k c" by (auto simp: star_iff)
  with s have "c # p \<noteq> [] \<and> s = (c # p) @ r \<and> (\<forall>x\<in>set (c # p). inClass k x)" by simp
  then show "\<exists>p. p \<noteq> [] \<and> s = p @ r \<and> (\<forall>c\<in>set p. inClass k c)" by blast
next
  assume "\<exists>p. p \<noteq> [] \<and> s = p @ r \<and> (\<forall>c\<in>set p. inClass k c)"
  then obtain p where p: "p \<noteq> []" "s = p @ r" "\<forall>c\<in>set p. inClass k c" by blast
  then obtain x xs where "p = x # xs" by (cases p) auto
  with p have "s = x # (xs @ r)" "inClass k x" "r \<in> set (star k (xs @ r))"
    by (auto simp: star_iff)
  then show "r \<in> set (rx_match (Plus k) s)" by simp
qed

lemma lit_iff: "r \<in> set (rx_match (Lit l) s) \<longleftrightarrow> (\<exists>p. s = p @ r \<and> ci p l)"
  using matchLit_iff [of l s r] by (auto split: option.splits)

lemma seq_iff: "r \<in> set (rx_match (Seq a b) s) \<longleftrightarrow> (\<exists>m\<in>set (rx_match a s). r \<in> set (rx_match b m))"
  by auto

lemma opt_iff: "r \<in> set (rx_match (Opt a) s) \<longleftrightarrow> r = s \<or> r \<in> set (rx_match a s)"
  by auto

lemma test_iff: "test r s \<longleftrightarrow> (\<exists>x. x \<in> set (rx_match r s))"
  by (cases "rx_match r s") (auto simp: test_def)

lemma okpc_app_iff:
  "test okpc_app u \<longleftrightarrow>
     (\<exists>p q rest. u = p @ q @ rest \<and> ci p ''https://'' \<and> ci q ''okpc.app/'') \<or>
     (\<exists>p lbl d q rest. u = p @ lbl @ d @ q @ rest \<and> ci p ''https://'' \<and> lbl \<noteq> [] \<and>
        (\<forall>c\<in>set lbl. inClass WordOrDash c) \<and> ci d ''.'' \<and> ci q ''okpc.app/'')"
  unfolding test_iff okpc_app_def seq_iff Bex_def opt_iff lit_iff plus_iff
  apply (rule iffI)
   apply (elim exE conjE disjE)
    apply (rule disjI1)
    apply blast
   apply (rule disjI2)
   apply (simp (no_asm_use))
   apply blast
  apply (elim exE conjE disjE)
   apply (simp (no_asm_use))
   apply blast
  apply (simp (no_asm_use))
  apply blast
  done


lemma okpc_vercel_iff:
  "test okpc_vercel u \<longleftrightarrow>
     (\<exists>p lbl q rest. u = p @ lbl @ q @ rest \<and> ci p ''https://'' \<and> lbl \<noteq> [] \<and>
        (\<forall>c\<in>set lbl. inClass WordOrDash c) \<and> ci q ''-okpc.vercel.app/'')"
  unfolding test_iff okpc_vercel_def seq_iff Bex_def opt_iff lit_iff plus_iff
  apply (rule iffI)
   apply (elim exE conjE disjE)
   apply (simp (no_asm_use))
   apply blast
  apply (elim exE conjE disjE)
  apply (simp (no_asm_use))
  apply blast
  done

lemma localhost_iff:
  "test localhost u \<longleftrightarrow>
     (\<exists>p q rest. u = p @ q @ rest \<and> ci p ''http://localhost'' \<and> ci q ''/'') \<or>
     (\<exists>p d port q rest. u = p @ d @ port @ q @ rest \<and> ci p ''http://localhost'' \<and> ci d '':'' \<and>
        port \<noteq> [] \<and> (\<forall>c\<in>set port. inClass Digit c) \<and> ci q ''/'')"
  unfolding test_iff localhost_def seq_iff Bex_def opt_iff lit_iff plus_iff
  apply (rule iffI)
   apply (elim exE conjE disjE)
    apply (rule disjI1)
    apply blast
   apply (rule disjI2)
   apply (simp (no_asm_use))
   apply blast
  apply (elim exE conjE disjE)
   apply (simp (no_asm_use))
   apply blast
  apply (simp (no_asm_use))
  apply blast
  done

lemma ci_refl: "ci p p" by (simp add: ci_def)

lemma ci_append: "ci p (l @ m) \<longleftrightarrow> (\<exists>a b. p = a @ b \<and> ci a l \<and> ci b m)"
proof
  assume "ci p (l @ m)"
  then have "map canonicalize p = map canonicalize l @ map canonicalize m" by (simp add: ci_def)
  then obtain a b where "p = a @ b" "map canonicalize l = map canonicalize a"
      "map canonicalize m = map canonicalize b"
    unfolding map_eq_append_conv by blast
  then have "p = a @ b \<and> ci a l \<and> ci b m" by (simp add: ci_def)
  then show "\<exists>a b. p = a @ b \<and> ci a l \<and> ci b m" by blast
next
  assume "\<exists>a b. p = a @ b \<and> ci a l \<and> ci b m"
  then show "ci p (l @ m)" by (auto simp: ci_def)
qed

lemma ci_hostChars: "ci p l \<Longrightarrow> \<forall>c\<in>set l. hostChar c \<Longrightarrow> \<forall>c\<in>set p. hostChar c"
  unfolding ci_def
proof (induction p arbitrary: l)
  case Nil
  then show ?case by simp
next
  case (Cons a p)
  then obtain b l' where l: "l = b # l'" "canonicalize a = canonicalize b" "map canonicalize p = map canonicalize l'"
    by (cases l) auto
  with Cons show ?case using canon_hostChar [of a b] by auto
qed

lemma ci_slash: "ci p ''/'' \<longleftrightarrow> p = ''/''"
  using canon_slash [of _ "CHR ''/''"] by (cases p) (auto simp: ci_def)

lemma digit_hostChar: "inClass Digit c \<Longrightarrow> hostChar c"
  by (simp add: hostChar_def Let_def)

lemma ci_count_slash: "ci p l \<Longrightarrow> count_list p (CHR ''/'') = count_list l (CHR ''/'')"
  unfolding ci_def
proof (induction p arbitrary: l)
  case Nil
  then show ?case by simp
next
  case (Cons a p)
  then obtain b l' where l: "l = b # l'" "canonicalize a = canonicalize b" "map canonicalize p = map canonicalize l'"
    by (cases l) auto
  with Cons show ?case using canon_slash [of a b] by auto
qed

lemma hostShapedI: "u = sch @ host @ ''/'' @ rest \<Longrightarrow> ci sch ''https://'' \<or> ci sch ''http://'' \<Longrightarrow>
     host \<noteq> [] \<Longrightarrow> (\<forall>c\<in>set host. hostChar c) \<Longrightarrow> hostShaped u"
  unfolding hostShaped_def by blast

lemma okpc_app_shape: assumes "test okpc_app u" shows "hostShaped u"
proof -
  have k: "\<forall>c\<in>set ''okpc.app''. hostChar c" by (simp add: hostChar_def Let_def code_def)
  from assms consider
    (apex) p q rest where "u = p @ q @ rest" "ci p ''https://''" "ci q ''okpc.app/''"
  | (sub) p lbl d q rest where "u = p @ lbl @ d @ q @ rest" "ci p ''https://''" "lbl \<noteq> []"
        "\<forall>c\<in>set lbl. inClass WordOrDash c" "ci d ''.''" "ci q ''okpc.app/''"
    unfolding okpc_app_iff by blast
  then show ?thesis
  proof cases
    case apex
    from apex(3) have "ci q (''okpc.app'' @ ''/'')" by simp
    then obtain a where a: "q = a @ ''/''" "ci a ''okpc.app''"
      unfolding ci_append ci_slash by blast
    then have "a \<noteq> []" by (auto simp: ci_def)
    moreover from a k have "\<forall>c\<in>set a. hostChar c" using ci_hostChars by blast
    ultimately show ?thesis using apex a by (intro hostShapedI [of u p a rest]) auto
  next
    case sub
    from sub(6) have "ci q (''okpc.app'' @ ''/'')" by simp
    then obtain a where a: "q = a @ ''/''" "ci a ''okpc.app''"
      unfolding ci_append ci_slash by blast
    from a k have "\<forall>c\<in>set a. hostChar c" using ci_hostChars by blast
    moreover from sub(5) have "\<forall>c\<in>set d. hostChar c"
      using ci_hostChars [of d "''.''"] by (simp add: hostChar_def)
    moreover from sub(4) have "\<forall>c\<in>set lbl. hostChar c" by (simp add: hostChar_def)
    ultimately have "\<forall>c\<in>set (lbl @ d @ a). hostChar c" by auto
    then show ?thesis using sub a by (intro hostShapedI [of u p "lbl @ d @ a" rest]) auto
  qed
qed

lemma okpc_vercel_shape: assumes "test okpc_vercel u" shows "hostShaped u"
proof -
  have k: "\<forall>c\<in>set ''-okpc.vercel.app''. hostChar c" by (simp add: hostChar_def Let_def code_def)
  from assms obtain p lbl q rest where sub: "u = p @ lbl @ q @ rest" "ci p ''https://''" "lbl \<noteq> []"
        "\<forall>c\<in>set lbl. inClass WordOrDash c" "ci q ''-okpc.vercel.app/''"
    unfolding okpc_vercel_iff by blast
  from sub(5) have "ci q (''-okpc.vercel.app'' @ ''/'')" by simp
  then obtain a where a: "q = a @ ''/''" "ci a ''-okpc.vercel.app''"
    unfolding ci_append ci_slash by blast
  from a k have "\<forall>c\<in>set a. hostChar c" using ci_hostChars by blast
  moreover from sub(4) have "\<forall>c\<in>set lbl. hostChar c" by (simp add: hostChar_def)
  ultimately have "\<forall>c\<in>set (lbl @ a). hostChar c" by auto
  then show ?thesis using sub a by (intro hostShapedI [of u p "lbl @ a" rest]) auto
qed

lemma localhost_shape: assumes "test localhost u" shows "hostShaped u"
proof -
  have k: "\<forall>c\<in>set ''localhost''. hostChar c" by (simp add: hostChar_def Let_def code_def)
  from assms consider
    (plain) p q rest where "u = p @ q @ rest" "ci p ''http://localhost''" "ci q ''/''"
  | (port) p d port q rest where "u = p @ d @ port @ q @ rest" "ci p ''http://localhost''" "ci d '':''"
        "port \<noteq> []" "\<forall>c\<in>set port. inClass Digit c" "ci q ''/''"
    unfolding localhost_iff by blast
  then show ?thesis
  proof cases
    case plain
    from plain(2) have "ci p (''http://'' @ ''localhost'')" by simp
    then obtain s h where s: "p = s @ h" "ci s ''http://''" "ci h ''localhost''"
      unfolding ci_append by blast
    then have "h \<noteq> []" by (auto simp: ci_def)
    moreover from s k have "\<forall>c\<in>set h. hostChar c" using ci_hostChars by blast
    ultimately show ?thesis using plain s by (intro hostShapedI [of u s h rest]) (auto simp: ci_slash)
  next
    case port
    from port(2) have "ci p (''http://'' @ ''localhost'')" by simp
    then obtain s h where s: "p = s @ h" "ci s ''http://''" "ci h ''localhost''"
      unfolding ci_append by blast
    from s k have "\<forall>c\<in>set h. hostChar c" using ci_hostChars by blast
    moreover from port(3) have "\<forall>c\<in>set d. hostChar c"
      using ci_hostChars [of d "'':''"] by (simp add: hostChar_def)
    moreover from port(5) have "\<forall>c\<in>set port. hostChar c" using digit_hostChar by blast
    ultimately have "\<forall>c\<in>set (h @ d @ port). hostChar c" by auto
    then show ?thesis using port s by (intro hostShapedI [of u s "h @ d @ port" rest]) (auto simp: ci_slash)
  qed
qed

lemma allowed_iff:
  "allowed env u \<longleftrightarrow> test okpc_app u \<or> test okpc_vercel u \<or> (env \<noteq> Some ''production'' \<and> test localhost u)"
  by (auto simp: allowed_def allowedHostnames_def)

lemma allowed_shape: "allowed env u \<Longrightarrow> hostShaped u"
  unfolding allowed_iff using okpc_app_shape okpc_vercel_shape localhost_shape by blast

lemma hostShaped_slashes: assumes "hostShaped u" shows "3 \<le> count_list u (CHR ''/'')"
proof -
  from assms obtain sch host rest where u: "u = sch @ host @ ''/'' @ rest"
    and s: "ci sch ''https://'' \<or> ci sch ''http://''" unfolding hostShaped_def by blast
  from s have "count_list sch (CHR ''/'') = 2" using ci_count_slash by fastforce
  with u show ?thesis by simp
qed

lemma no_path_rejected:
  assumes "ci sch ''https://'' \<or> ci sch ''http://''" and "CHR ''/'' \<notin> set t"
  shows "\<not> allowed env (sch @ t)"
proof
  assume "allowed env (sch @ t)"
  then have "3 \<le> count_list (sch @ t) (CHR ''/'')" using allowed_shape hostShaped_slashes by blast
  moreover from assms(1) have "count_list sch (CHR ''/'') = 2" using ci_count_slash by fastforce
  moreover from assms(2) have "count_list t (CHR ''/'') = 0" by simp
  ultimately show False by simp
qed

lemma okpc_app_subdomain:
  assumes "ci p ''https://''" and "lbl \<noteq> []" and "\<forall>c\<in>set lbl. inClass WordOrDash c"
    and "ci d ''.''" and "ci q ''okpc.app/''"
  shows "test okpc_app (p @ lbl @ d @ q @ rest)"
  unfolding okpc_app_iff using assms by blast

lemma okpc_app_apex:
  assumes "ci p ''https://''" and "ci q ''okpc.app/''"
  shows "test okpc_app (p @ q @ rest)"
  unfolding okpc_app_iff using assms by blast


subsection \<open>Case-insensitive matching\<close>

lemma matchLit_ci:
  "map canonicalize u = map canonicalize v \<Longrightarrow>
     (matchLit l u = None \<longleftrightarrow> matchLit l v = None) \<and>
     (\<forall>x y. matchLit l u = Some x \<and> matchLit l v = Some y \<longrightarrow> map canonicalize x = map canonicalize y)"
proof (induction l u arbitrary: v rule: matchLit.induct)
  case (1 s)
  then show ?case by simp
next
  case (2 l ls)
  then show ?case by simp
next
  case (3 l ls c cs)
  from "3.prems" obtain d ds where v: "v = d # ds" "canonicalize c = canonicalize d"
      "map canonicalize cs = map canonicalize ds"
    by (cases v) simp_all
  show ?case
  proof (cases "canonicalize l = canonicalize c")
    case True
    from "3.IH" [OF True v(3)] True v show ?thesis by simp
  next
    case False
    with v show ?thesis by simp
  qed
qed

lemma star_ci:
  "map canonicalize u = map canonicalize v \<Longrightarrow>
     list_all2 (\<lambda>x y. map canonicalize x = map canonicalize y) (star k u) (star k v)"
proof (induction u arbitrary: v)
  case Nil
  then show ?case by simp
next
  case (Cons c cs)
  from Cons.prems obtain d ds where v: "v = d # ds" "canonicalize c = canonicalize d"
      "map canonicalize cs = map canonicalize ds"
    by (cases v) simp_all
  have k: "inClass k c = inClass k d" using v(2) by (rule canon_class)
  have last: "list_all2 (\<lambda>x y. map canonicalize x = map canonicalize y) [c # cs] [d # ds]"
    using v by simp
  show ?case
  proof (cases "inClass k c")
    case True
    have "list_all2 (\<lambda>x y. map canonicalize x = map canonicalize y)
            (star k cs @ [c # cs]) (star k ds @ [d # ds])"
      using Cons.IH [OF v(3)] last by (rule list_all2_appendI)
    with True k v show ?thesis by simp
  next
    case False
    with k v last show ?thesis by simp
  qed
qed

lemma concat_ci:
  "list_all2 (list_all2 R) xss yss \<Longrightarrow> list_all2 R (concat xss) (concat yss)"
proof (induction rule: list_all2_induct)
  case Nil
  then show ?case by simp
next
  case (Cons x xs y ys)
  then show ?case by (simp add: list_all2_appendI)
qed


lemma rx_match_ci:
  "map canonicalize u = map canonicalize v \<Longrightarrow>
     list_all2 (\<lambda>x y. map canonicalize x = map canonicalize y) (rx_match r u) (rx_match r v)"
proof (induction r arbitrary: u v)
  case (Lit l)
  note m = matchLit_ci [OF Lit.prems, of l]
  show ?case
  proof (cases "matchLit l u")
    case None
    with m have "matchLit l v = None" by blast
    with None show ?thesis by simp
  next
    case (Some x)
    with m obtain y where y: "matchLit l v = Some y" by (cases "matchLit l v") auto
    with m Some have "map canonicalize x = map canonicalize y" by blast
    with Some y show ?thesis by simp
  qed
next
  case (Plus k)
  show ?case
  proof (cases u)
    case Nil
    with Plus show ?thesis by simp
  next
    case (Cons c cs)
    with Plus obtain d ds where v: "v = d # ds" "canonicalize c = canonicalize d"
        "map canonicalize cs = map canonicalize ds"
      by (cases v) simp_all
    have "inClass k c = inClass k d" using v(2) by (rule canon_class)
    with Cons v star_ci [OF v(3), of k] show ?thesis by simp
  qed
next
  case (Opt r)
  have "list_all2 (\<lambda>x y. map canonicalize x = map canonicalize y) [u] [v]"
    using Opt.prems by simp
  with Opt.IH [OF Opt.prems] have "list_all2 (\<lambda>x y. map canonicalize x = map canonicalize y)
      (rx_match r u @ [u]) (rx_match r v @ [v])"
    by (rule list_all2_appendI)
  then show ?case by simp
next
  case (Seq a b)
  have "list_all2 (\<lambda>x y. map canonicalize x = map canonicalize y) (rx_match a u) (rx_match a v)"
    using Seq.IH(1) [OF Seq.prems] .
  then have "list_all2 (\<lambda>x y. list_all2 (\<lambda>x y. map canonicalize x = map canonicalize y)
          (rx_match b x) (rx_match b y)) (rx_match a u) (rx_match a v)"
    by (rule list_all2_mono) (rule Seq.IH(2))
  then have "list_all2 (list_all2 (\<lambda>x y. map canonicalize x = map canonicalize y))
          (map (rx_match b) (rx_match a u)) (map (rx_match b) (rx_match a v))"
    by (simp add: list_all2_map1 list_all2_map2)
  then have "list_all2 (\<lambda>x y. map canonicalize x = map canonicalize y)
          (concat (map (rx_match b) (rx_match a u))) (concat (map (rx_match b) (rx_match a v)))"
    by (rule concat_ci)
  then show ?case by simp
qed

lemma test_ci: "map canonicalize u = map canonicalize v \<Longrightarrow> test r u = test r v"
proof -
  assume "map canonicalize u = map canonicalize v"
  then have "length (rx_match r u) = length (rx_match r v)"
    using rx_match_ci [of u v r] by (simp add: list_all2_lengthD)
  then show ?thesis unfolding test_def by (metis length_0_conv)
qed

lemma allowed_ci: "map canonicalize u = map canonicalize v \<Longrightarrow> allowed env u = allowed env v"
  unfolding allowed_iff using test_ci by blast

subsection \<open>\<^verbatim>\<open>parseInt\<close>\<close>

lemma code_digit: "d < 10 \<Longrightarrow> code (char_of (48 + d)) = 48 + d"
  by (simp add: code_def)

lemma digitValue_digit: "d < 10 \<Longrightarrow> digitValue 10 (char_of (48 + d)) = Some d"
  by (simp add: digitValue_def code_digit)

lemma decimal_digits: "c \<in> set (decimal n) \<Longrightarrow> 48 \<le> code c \<and> code c \<le> 57"
proof (induction n rule: decimal.induct)
  case (1 n)
  show ?case
  proof (cases "n < 10")
    case True
    with "1.prems" show ?thesis by (simp add: decimal.simps [of n] code_digit)
  next
    case False
    with "1.prems" have "c \<in> set (decimal (n div 10)) \<or> c = char_of (48 + n mod 10)"
      by (auto simp: decimal.simps [of n])
    then show ?thesis
    proof
      assume "c \<in> set (decimal (n div 10))"
      with False "1.IH" show ?thesis by simp
    next
      assume "c = char_of (48 + n mod 10)"
      then show ?thesis by (simp add: code_digit)
    qed
  qed
qed

lemma decimal_nonempty: "decimal n \<noteq> []"
  by (simp add: decimal.simps [of n])

lemma parseDigits_append:
  "\<forall>c\<in>set xs. digitValue r c \<noteq> None \<Longrightarrow>
     parseDigits r acc (xs @ ys) = parseDigits r (parseDigits r acc xs) ys"
proof (induction xs arbitrary: acc)
  case Nil
  then show ?case by simp
next
  case (Cons x xs)
  then obtain d where d: "digitValue r x = Some d" by auto
  with Cons show ?case by simp
qed

lemma digitValue_decimal: "c \<in> set (decimal n) \<Longrightarrow> digitValue 10 c \<noteq> None"
  using decimal_digits [of c n] by (simp add: digitValue_def Let_def)

lemma parseDigits_decimal: "parseDigits 10 None (decimal n) = Some n"
proof (induction n rule: decimal.induct)
  case (1 n)
  show ?case
  proof (cases "n < 10")
    case True
    then show ?thesis by (simp add: decimal.simps [of n] digitValue_digit)
  next
    case False
    have "parseDigits 10 None (decimal (n div 10) @ [char_of (48 + n mod 10)]) =
        parseDigits 10 (parseDigits 10 None (decimal (n div 10))) [char_of (48 + n mod 10)]"
      using digitValue_decimal by (intro parseDigits_append) blast
    also have "\<dots> = parseDigits 10 (Some (n div 10)) [char_of (48 + n mod 10)]"
      using False "1.IH" by simp
    also have "\<dots> = Some (n div 10 * 10 + n mod 10)"
      by (simp add: digitValue_digit)
    finally show ?thesis using False by (simp add: decimal.simps [of n])
  qed
qed

lemma whiteSpaceAt_digit:
  assumes "48 \<le> code c" and "code c \<le> 57"
  shows "whiteSpaceAt (c # cs) = 0"
  using assms by (auto simp: whiteSpaceAt_def whiteSpace_def)

lemma parseInt_decimal: "parseInt (decimal n) = toNumber 1 n"
proof -
  obtain c cs where s: "decimal n = c # cs" using decimal_nonempty [of n] by (cases "decimal n") auto
  then have c: "48 \<le> code c" "code c \<le> 57" using decimal_digits [of c n] by simp_all
  then have w: "skipWhiteSpace (decimal n) = decimal n"
    using s whiteSpaceAt_digit [of c cs] by (simp add: skipWhiteSpace.simps)
  from c s have m: "hd (decimal n) \<noteq> CHR ''-''" "hd (decimal n) \<noteq> CHR ''+''"
    by (auto simp: code_def)
  have x: "take 2 (decimal n) \<noteq> ''0x''" "take 2 (decimal n) \<noteq> ''0X''"
  proof -
    have "CHR ''x'' \<notin> set (decimal n)" "CHR ''X'' \<notin> set (decimal n)"
      using decimal_digits [of "CHR ''x''" n] decimal_digits [of "CHR ''X''" n]
      by (auto simp: code_def)
    moreover have "set (take 2 (decimal n)) \<subseteq> set (decimal n)" by (rule set_take_subset)
    ultimately show "take 2 (decimal n) \<noteq> ''0x''" "take 2 (decimal n) \<noteq> ''0X''" by auto
  qed
  have "parseInt (decimal n) =
      (case parseDigits 10 None (decimal n) of None \<Rightarrow> NaN | Some k \<Rightarrow> toNumber 1 k)"
    unfolding parseInt_def w Let_def using m x by simp
  then show ?thesis by (simp add: parseDigits_decimal)
qed

lemma bitLength_bounds: "n < 2 ^ bitLength n \<and> (n \<noteq> 0 \<longrightarrow> 2 ^ (bitLength n - 1) \<le> n)"
proof (induction n rule: bitLength.induct)
  case (1 n)
  show ?case
  proof (cases "n = 0")
    case True
    then show ?thesis by (simp add: bitLength.simps [of n])
  next
    case False
    with "1.IH" have ih: "n div 2 < 2 ^ bitLength (n div 2)"
      "n div 2 \<noteq> 0 \<longrightarrow> 2 ^ (bitLength (n div 2) - 1) \<le> n div 2" by simp_all
    have b: "bitLength n = Suc (bitLength (n div 2))" using False by (simp add: bitLength.simps [of n])
    from ih(1) have u: "n < 2 ^ bitLength n" unfolding b by simp
    have l: "2 ^ (bitLength n - 1) \<le> n"
    proof (cases "n div 2 = 0")
      case True
      with False have "n = 1" by arith
      then show ?thesis by (simp add: bitLength.simps [of "Suc 0"] bitLength.simps [of 0])
    next
      case nz: False
      then have p: "bitLength (n div 2) = Suc (bitLength (n div 2) - 1)"
        by (simp add: bitLength.simps [of "n div 2"])
      from ih(2) nz have "2 ^ (bitLength (n div 2) - 1) \<le> n div 2" by simp
      then have "2 * 2 ^ (bitLength (n div 2) - 1) \<le> n" by arith
      then have "2 ^ Suc (bitLength (n div 2) - 1) \<le> n" by simp
      with p b show ?thesis by simp
    qed
    from u l show ?thesis by simp
  qed
qed

lemma toNumber_exact: "m < 2 ^ 53 \<Longrightarrow> toNumber sign m = Num (sign * int m)"
  by (simp add: toNumber_def)

lemma toNumber_overflow:
  assumes "2 ^ 1024 \<le> m"
  shows "toNumber sign m = (if sign < 0 then NegInfinity else PosInfinity)"
proof -
  define e where "e = bitLength m - 53"
  define q where "q = m div 2 ^ e"
  define q' where "q' = (if 2 ^ e < 2 * (m mod 2 ^ e) \<or> (2 * (m mod 2 ^ e) = 2 ^ e \<and> odd q) then q + 1 else q)"
  have big: "\<not> m < 2 ^ 53"
  proof -
    have "(2::nat) ^ 53 \<le> 2 ^ 1024" by (rule power_increasing) simp_all
    with assms show ?thesis by simp
  qed
  from assms have m0: "m \<noteq> 0" by auto
  have "(2::nat) ^ 1024 < 2 ^ bitLength m" using assms bitLength_bounds [of m] by simp
  then have bl: "1024 < bitLength m" by (rule power_less_imp_less_exp [rotated]) simp
  have lo: "2 ^ (bitLength m - 1) \<le> m" using bitLength_bounds [of m] m0 by simp
  have split: "bitLength m - 1 = 52 + e" using bl by (simp add: e_def)
  have "(2::nat) ^ 52 * 2 ^ e \<le> m" using lo unfolding split by (simp add: power_add)
  then have "2 ^ 52 \<le> q" unfolding q_def by (simp add: less_eq_div_iff_mult_less_eq)
  moreover have "q \<le> q'" by (simp add: q'_def)
  ultimately have qq: "2 ^ 52 \<le> q'" by simp
  have "(2::nat) ^ 1024 \<le> 2 ^ (52 + e)"
    using bl by (intro power_increasing) (simp_all add: e_def)
  also have "\<dots> = 2 ^ 52 * 2 ^ e" by (rule power_add)
  also have "\<dots> \<le> q' * 2 ^ e" using qq by (rule mult_le_mono1)
  finally have "2 ^ 1024 \<le> q' * 2 ^ e" .
  then show ?thesis
    using big unfolding toNumber_def Let_def q'_def q_def e_def by simp
qed

text \<open>The parser at inputs outside ASCII digits: white space outside ASCII, rounding,
  overflow.\<close>

lemma parseInt_no_break_space: "parseInt ([CHR 0xC2, CHR 0xA0] @ ''5'') = Num 5"
  by (simp add: parseInt_def skipWhiteSpace.simps whiteSpaceAt_def whiteSpace_def toNumber_def
      digitValue_def code_def)

lemma parseInt_byte_order_mark: "parseInt ([CHR 0xEF, CHR 0xBB, CHR 0xBF] @ ''7'') = Num 7"
  by (simp add: parseInt_def skipWhiteSpace.simps whiteSpaceAt_def whiteSpace_def toNumber_def
      digitValue_def code_def)

lemma parseInt_rounds: "parseInt ''9007199254740993'' = Num 9007199254740992"
  by (simp add: parseInt_def skipWhiteSpace.simps whiteSpaceAt_def whiteSpace_def toNumber_def
      digitValue_def code_def bitLength.simps)

lemma parseInt_overflows: "parseInt (decimal (10 ^ 309)) = PosInfinity"
  by (simp add: parseInt_decimal toNumber_overflow)

subsection \<open>The handler\<close>

lemmas io_defs = bnd_def await_def respond_def ret_def throw_def started_def console_error_def

lemma gbi_cases:
  "getBrowserInstance w s = (r, s') \<Longrightarrow>
     res s' = res s \<and> browser s' = browser s \<and> closed s' = closed s \<and> console s' = console s \<and>
     created s' = created s + (case r of Inl e \<Rightarrow> 0 | Inr u \<Rightarrow> 1)"
  unfolding getBrowserInstance_def io_defs Let_def
  by (auto split: sum.splits if_splits option.splits)

lemma gbi_calls:
  "getBrowserInstance w s = (r, s') \<Longrightarrow>
     \<exists>cs. calls s' = calls s @ ExecutablePath # cs \<and> Close \<notin> set cs \<and>
        (\<forall>v. SetViewport v \<notin> set cs) \<and> (\<forall>so. Screenshot so \<notin> set cs)"
  unfolding getBrowserInstance_def io_defs Let_def
  by (auto split: sum.splits if_splits option.splits)

lemma bnd_await [simp]:
  "bnd (await c out) f s =
     (case out of Inl e \<Rightarrow> (Inl e, s\<lparr>calls := calls s @ [c]\<rparr>)
      | Inr x \<Rightarrow> f x (s\<lparr>calls := calls s @ [c]\<rparr>))"
  by (simp add: bnd_def await_def split: sum.splits)

lemma bnd_respond [simp]: "bnd (respond c) f s = f () (s\<lparr>res := res s @ [c]\<rparr>)"
  by (simp add: bnd_def respond_def)

lemma bnd_ret [simp]: "bnd (ret x) f s = f x s"
  by (simp add: bnd_def ret_def)

lemma bnd_throw [simp]: "bnd (throw e) f s = (Inl e, s)"
  by (simp add: bnd_def throw_def)

lemma bnd_if: "bnd (if c then a else b) f s = (if c then bnd a f s else bnd b f s)"
  by simp

lemma bnd_assign [simp]: "bnd (\<lambda>s. (Inr (), g s)) f s = f () (g s)"
  by (simp add: bnd_def)


lemma pipeline_cases:
  "case pipeline w req of
     (Inl e, s1) \<Rightarrow>
        res s1 = [] \<and> (browser s1 \<longleftrightarrow> fst (getBrowserInstance w init) = Inr ()) \<and>
        created s1 = (if browser s1 then 1 else 0) \<and> closed s1 = 0 \<and> console s1 = []
   | (Inr u, s1) \<Rightarrow>
       (\<exists>b. screenshot w \<lparr>so_type = format_of req,
             so_quality = (if format_of req = ''png'' then None else Some (quality_of req))\<rparr> = Inr b \<and>
          res s1 = [SetHeader ''Cache-Control'' cache_control,
               SetHeader ''Content-Type'' (''image/'' @ format_of req), Send b]) \<and>
       browser s1 \<and> created s1 = 1 \<and> closed s1 = 0 \<and> fst (getBrowserInstance w init) = Inr ()"
proof (cases "getBrowserInstance w init")
  case (Pair r s0)
  note g = gbi_cases [OF Pair]
  show ?thesis
  proof (cases r)
    case (Inl e')
    with Pair g show ?thesis
      by (simp add: pipeline_def try_block_def bnd_def [of "getBrowserInstance w"] init_def)
  next
    case (Inr b)
    with Pair g show ?thesis
      unfolding pipeline_def try_block_def
      by (simp add: bnd_def [of "getBrowserInstance w"] bnd_if Let_def init_def respond_def
          split: sum.split) 
  qed
qed


lemma pipeline_calls:
  "case pipeline w req of
     (r, s1) \<Rightarrow>
        Close \<notin> set (calls s1) \<and>
        (\<forall>v. SetViewport v \<in> set (calls s1) \<longrightarrow>
           v = \<lparr>width = 1280, height = 720, deviceScaleFactor = pixelDensity_of req\<rparr>) \<and>
        (\<forall>so. Screenshot so \<in> set (calls s1) \<longrightarrow>
           so = \<lparr>so_type = format_of req,
                 so_quality = (if format_of req = ''png'' then None else Some (quality_of req))\<rparr>) \<and>
        (\<exists>cs. calls s1 = ExecutablePath # cs)"
proof (cases "getBrowserInstance w init")
  case (Pair r s0)
  from gbi_calls [OF Pair] obtain cs where g: "calls s0 = ExecutablePath # cs" "Close \<notin> set cs"
      "\<forall>v. SetViewport v \<notin> set cs" "\<forall>so. Screenshot so \<notin> set cs"
    by (auto simp: init_def)
  show ?thesis
  proof (cases r)
    case (Inl e')
    with Pair g show ?thesis
      by (simp add: pipeline_def try_block_def bnd_def [of "getBrowserInstance w"])
  next
    case (Inr b)
    with Pair g show ?thesis
      unfolding pipeline_def try_block_def
      by (simp add: bnd_def [of "getBrowserInstance w"] bnd_if Let_def respond_def
          split: sum.split)
  qed
qed

lemma pipeline_viewport:
  assumes "fst (getBrowserInstance w init) = Inr ()" and "newPage w = Inr ()"
  shows "SetViewport \<lparr>width = 1280, height = 720, deviceScaleFactor = pixelDensity_of req\<rparr>
           \<in> set (calls (snd (pipeline w req)))"
proof (cases "getBrowserInstance w init")
  case (Pair r s0)
  with assms show ?thesis
    unfolding pipeline_def try_block_def
    by (simp add: bnd_def [of "getBrowserInstance w"] bnd_if Let_def respond_def
          split: sum.split) 
qed

lemma handler_missing:
  "\<not> truthy (query req ''url'') \<Longrightarrow>
     handler env w req = (Inr (), init\<lparr>res := [Status 400, Json missing_url]\<rparr>)"
  by (simp add: handler_def Let_def init_def respond_def)

lemma handler_invalid:
  "truthy (query req ''url'') \<Longrightarrow> \<not> allowed env (toString (query req ''url'')) \<Longrightarrow>
     handler env w req = (Inr (), init\<lparr>res := [Status 400, Json invalid_url]\<rparr>)"
  by (simp add: handler_def Let_def init_def respond_def)

lemma handler_valid:
  assumes "valid env req"
  shows "case pipeline w req of
     (Inl e, s1) \<Rightarrow>
        res (snd (handler env w req)) = catch_response req e \<and>
        calls (snd (handler env w req)) = calls s1 @ (if browser s1 then [Close] else []) \<and>
        closed (snd (handler env w req)) = (if browser s1 then 1 else 0) \<and>
        created (snd (handler env w req)) = created s1 \<and>
        console (snd (handler env w req)) = [(''error while generating opengraph image'', e)]
   | (Inr u, s1) \<Rightarrow>
        res (snd (handler env w req)) = res s1 \<and>
        calls (snd (handler env w req)) = calls s1 @ [Close] \<and>
        closed (snd (handler env w req)) = 1 \<and>
        created (snd (handler env w req)) = 1 \<and>
        fst (handler env w req) = close w"
proof -
  have h: "handler env w req =
      try_catch_finally (\<lambda>s. pipeline w req) (catch_block (fallback_of req)) (finally_block w) init"
    using assms
    by (simp add: handler_def valid_def Let_def try_catch_finally_def pipeline_def)
  show ?thesis
  proof (cases "pipeline w req")
    case (Pair r s1)
    show ?thesis
    proof (cases r)
      case (Inl e)
      with Pair pipeline_cases [where w = w and req = req] show ?thesis
        by (simp add: h try_catch_finally_def catch_block_def catch_response_def finally_block_def
            browser_close_def bnd_def console_error_def respond_def ret_def
            split: option.split sum.split)
    next
      case (Inr u)
      with Pair pipeline_cases [where w = w and req = req] show ?thesis
        by (simp add: h try_catch_finally_def finally_block_def browser_close_def
            split: sum.split)
    qed
  qed
qed

lemma handler_not_valid:
  assumes "\<not> valid env req"
  shows "calls (snd (handler env w req)) = [] \<and> created (snd (handler env w req)) = 0 \<and>
    closed (snd (handler env w req)) = 0 \<and> fst (handler env w req) = Inr () \<and>
    res (snd (handler env w req)) =
      [Status 400, Json (if truthy (query req ''url'') then invalid_url else missing_url)]"
proof (cases "truthy (query req ''url'')")
  case True
  with assms have "\<not> allowed env (toString (query req ''url''))" by (simp add: valid_def)
  with True show ?thesis by (simp add: handler_invalid init_def)
next
  case False
  then show ?thesis by (simp add: handler_missing init_def)
qed

lemma handler_trace:
  "(\<forall>v. SetViewport v \<in> set (calls (snd (handler env w req))) \<longrightarrow>
       v = \<lparr>width = 1280, height = 720, deviceScaleFactor = pixelDensity_of req\<rparr>) \<and>
   (\<forall>so. Screenshot so \<in> set (calls (snd (handler env w req))) \<longrightarrow>
       so = \<lparr>so_type = format_of req,
             so_quality = (if format_of req = ''png'' then None else Some (quality_of req))\<rparr>) \<and>
   count_list (calls (snd (handler env w req))) Close = closed (snd (handler env w req)) \<and>
   closed (snd (handler env w req)) = created (snd (handler env w req)) \<and>
   created (snd (handler env w req)) =
     (if valid env req \<and> fst (getBrowserInstance w init) = Inr () then 1 else 0)"
proof (cases "valid env req")
  case False
  then show ?thesis using handler_not_valid [where env = env and req = req and w = w] by simp
next
  case True
  show ?thesis
  proof (cases "pipeline w req")
    case (Pair r s1)
    show ?thesis
    proof (cases r)
      case (Inl e)
      with Pair True handler_valid [OF True, where w = w] pipeline_cases [where w = w and req = req] pipeline_calls [where w = w and req = req]
      show ?thesis by simp
    next
      case (Inr u)
      with Pair True handler_valid [OF True, where w = w] pipeline_cases [where w = w and req = req] pipeline_calls [where w = w and req = req]
      show ?thesis by simp
    qed
  qed
qed

lemma handler_success:
  assumes "valid env req" and "fst (pipeline w req) = Inr u"
  shows "\<exists>b. screenshot w \<lparr>so_type = format_of req,
             so_quality = (if format_of req = ''png'' then None else Some (quality_of req))\<rparr> = Inr b \<and>
          res (snd (handler env w req)) = [SetHeader ''Cache-Control'' cache_control,
               SetHeader ''Content-Type'' (''image/'' @ format_of req), Send b]"
proof (cases "pipeline w req")
  case (Pair r s1)
  with assms(2) have "r = Inr u" by simp
  with Pair handler_valid [OF assms(1), where w = w] pipeline_cases [where w = w and req = req]
  show ?thesis by simp
qed

lemma handler_failure:
  assumes "valid env req" and "fst (pipeline w req) = Inl e"
  shows "res (snd (handler env w req)) = catch_response req e"
proof (cases "pipeline w req")
  case (Pair r s1)
  with assms(2) have "r = Inl e" by simp
  with Pair handler_valid [OF assms(1), where w = w]
  show ?thesis by simp
qed

lemma handler_sent:
  assumes "Send b \<in> set (res (snd (handler env w req)))"
  shows "valid env req \<and> fst (pipeline w req) = Inr ()"
proof (cases "valid env req")
  case False
  with assms handler_not_valid [where env = env and req = req and w = w] show ?thesis by simp
next
  case True
  show ?thesis
  proof (cases "pipeline w req")
    case (Pair r s1)
    show ?thesis
    proof (cases r)
      case (Inl e)
      with Pair have "fst (pipeline w req) = Inl e" by simp
      from handler_failure [OF True this] assms show ?thesis
        by (simp add: catch_response_def split: option.splits if_splits)
    next
      case (Inr u)
      with Pair True show ?thesis by simp
    qed
  qed
qed

lemma cache_control_value: "cache_control = ''s-maxage=28800, stale-while-revalidate=86400''"
  by (simp add: cache_control_def decimal.simps char_of_eq_iff)

lemma pipeline_screenshot:
  "case pipeline w req of
     (Inl e, s1) \<Rightarrow> True
   | (Inr u, s1) \<Rightarrow>
       Screenshot \<lparr>so_type = format_of req,
         so_quality = (if format_of req = ''png'' then None else Some (quality_of req))\<rparr>
         \<in> set (calls s1)"
proof (cases "getBrowserInstance w init")
  case (Pair r s0)
  show ?thesis
  proof (cases r)
    case (Inl e')
    with Pair show ?thesis
      by (simp add: pipeline_def try_block_def bnd_def [of "getBrowserInstance w"])
  next
    case (Inr b)
    with Pair show ?thesis
      unfolding pipeline_def try_block_def
      by (cases "format_of req = ''png''")
        (simp_all add: bnd_def [of "getBrowserInstance w"] bnd_if Let_def respond_def
          split: sum.split)
  qed
qed

lemma handler_screenshot:
  assumes "valid env req" and "fst (pipeline w req) = Inr u"
  shows "Screenshot \<lparr>so_type = format_of req,
         so_quality = (if format_of req = ''png'' then None else Some (quality_of req))\<rparr>
         \<in> set (calls (snd (handler env w req)))"
proof (cases "pipeline w req")
  case (Pair r s1)
  with assms(2) have "r = Inr u" by simp
  with Pair handler_valid [OF assms(1), where w = w] pipeline_screenshot [where w = w and req = req]
  show ?thesis by simp
qed

lemma handler_viewport:
  assumes "valid env req" and "fst (getBrowserInstance w init) = Inr ()" and "newPage w = Inr ()"
  shows "SetViewport \<lparr>width = 1280, height = 720, deviceScaleFactor = pixelDensity_of req\<rparr>
           \<in> set (calls (snd (handler env w req)))"
proof (cases "pipeline w req")
  case (Pair r s1)
  with pipeline_viewport [OF assms(2,3), of req] have
    m: "SetViewport \<lparr>width = 1280, height = 720, deviceScaleFactor = pixelDensity_of req\<rparr> \<in> set (calls s1)"
    by simp
  show ?thesis
  proof (cases r)
    case (Inl e)
    with Pair m handler_valid [OF assms(1), where w = w] show ?thesis by simp
  next
    case (Inr u)
    with Pair m handler_valid [OF assms(1), where w = w] show ?thesis by simp
  qed
qed


text \<open>Which steps make the \<^verbatim>\<open>try\<close> block throw, and what it throws.\<close>

lemma getBrowserInstance_failure:
  "fst (getBrowserInstance w s) = Inl e \<longleftrightarrow>
     (case chromium_executablePath w of
        Inl e' \<Rightarrow> e' = e
      | Inr p \<Rightarrow>
          if p = None \<or> p = Some []
          then (case import_puppeteer w of
                  Inl e' \<Rightarrow> e' = e
                | Inr u \<Rightarrow>
                    puppeteer_launch w \<lparr>lo_executablePath = None, lo_args = chromium_args w,
                      lo_headless = True, lo_ignoreHTTPSErrors = True\<rparr> = Inl e)
          else chromium_puppeteer_launch w \<lparr>lo_executablePath = p, lo_args = chromium_args w,
                 lo_headless = chromium_headless w, lo_ignoreHTTPSErrors = True\<rparr> = Inl e)"
  unfolding getBrowserInstance_def Let_def
  by (auto simp: started_def split: sum.split)

lemma pipeline_failure:
  "fst (pipeline w req) = Inl e \<longleftrightarrow>
     fst (getBrowserInstance w init) = Inl e \<or>
     fst (getBrowserInstance w init) = Inr () \<and>
     (newPage w = Inl e \<or>
      newPage w = Inr () \<and>
      (setViewport w \<lparr>width = 1280, height = 720, deviceScaleFactor = pixelDensity_of req\<rparr> = Inl e \<or>
       setViewport w \<lparr>width = 1280, height = 720, deviceScaleFactor = pixelDensity_of req\<rparr> = Inr () \<and>
       (goto w (toString (query req ''url'')) = Inl e \<or>
        goto w (toString (query req ''url'')) = Inr () \<and>
        (waitForNetworkIdle w = Inl e \<or>
         waitForNetworkIdle w = Inr () \<and>
         (waitForSelector w ''#opengraph-image'' 500 = Inl e \<or>
          waitForSelector w ''#opengraph-image'' 500 = Inr () \<and>
          (query_selector w ''#opengraph-image'' = Inl e \<or>
           query_selector w ''#opengraph-image'' = Inr False \<and>
             new_Error ''No #opengraph-image element found at path'' = e \<or>
           query_selector w ''#opengraph-image'' = Inr True \<and>
             screenshot w \<lparr>so_type = format_of req,
               so_quality = (if format_of req = ''png'' then None else Some (quality_of req))\<rparr> = Inl e))))))"
proof (cases "getBrowserInstance w init")
  case (Pair r s0)
  show ?thesis
  proof (cases r)
    case (Inl e')
    with Pair show ?thesis
      by (simp add: pipeline_def try_block_def bnd_def [of "getBrowserInstance w"])
  next
    case (Inr b)
    with Pair show ?thesis
      unfolding pipeline_def try_block_def
      by (cases "format_of req = ''png''")
        (simp_all add: bnd_def [of "getBrowserInstance w"] bnd_if Let_def respond_def
          split: sum.split)
  qed
qed

subsection \<open>Evaluation at concrete inputs\<close>

lemmas rx_eval = allowed_def allowedHostnames_def test_def okpc_app_def okpc_vercel_def localhost_def
  canonicalize_def code_def

lemmas param_eval = request_of_def fallback_of_def pixelDensity_of_def format_of_def quality_of_def
  allowedFormats_def parseInt_def skipWhiteSpace.simps whiteSpaceAt_def whiteSpace_def
  toNumber_def digitValue_def code_def

lemmas world_eval = world_ok_def world_no_element_def world_no_browser_def getBrowserInstance_def
  io_defs Let_def init_def

lemmas handler_eval = handler_def try_catch_finally_def try_block_def catch_block_def
  finally_block_def browser_close_def pipeline_def valid_def

section \<open>The claims\<close>

text \<open>
  C3: when the \<open>url\<close> parameter is absent, the handler answers 400 with the body
  \<^verbatim>\<open>{error: {code: "MISSING_URL"}}\<close> and returns without any call on the browser side:
  no launch, no browser created.
\<close>

theorem missing_url_short_circuits:
  assumes "query req ''url'' = None"
  shows "fst (handler env w req) = Inr () \<and>
    res (snd (handler env w req)) =
      [Status 400, Json (JObject [(''error'', JObject [(''code'', JString ''MISSING_URL'')])])] \<and>
    calls (snd (handler env w req)) = [] \<and>
    created (snd (handler env w req)) = 0"
proof -
  from assms have "\<not> truthy (query req ''url'')" by simp
  then show ?thesis by (simp add: handler_missing init_def missing_url_def)
qed

theorem missing_url_short_circuits_witness:
  "query (request_of [(''fallback'', Str ''https://example.com/default.png'')]) ''url'' = None \<and>
   fst (handler None world_ok (request_of [(''fallback'', Str ''https://example.com/default.png'')])) = Inr () \<and>
   res (snd (handler None world_ok (request_of [(''fallback'', Str ''https://example.com/default.png'')]))) =
     [Status 400, Json (JObject [(''error'', JObject [(''code'', JString ''MISSING_URL'')])])] \<and>
   calls (snd (handler None world_ok (request_of [(''fallback'', Str ''https://example.com/default.png'')]))) = [] \<and>
   created (snd (handler None world_ok (request_of [(''fallback'', Str ''https://example.com/default.png'')]))) = 0"
proof -
  have h: "query (request_of [(''fallback'', Str ''https://example.com/default.png'')]) ''url'' = None"
    by (simp add: request_of_def)
  show ?thesis
    using h missing_url_short_circuits [OF h, of None world_ok] by simp
qed

text \<open>
  C1: for every request and every behaviour of the outside world, \<^verbatim>\<open>browser.close()\<close> is
  called as often as a browser was created, which is at most once. A request that fails
  validation creates and closes none and makes no call on the browser side. A request that
  passes validation and whose launch resolves creates one browser and closes it once,
  whatever happens afterwards (image sent, redirect to the fallback, or 500); when the
  launch rejects, none is created and none is closed.
\<close>

theorem browser_closed_once:
  "closed (snd (handler env w req)) = created (snd (handler env w req)) \<and>
   count_list (calls (snd (handler env w req))) Close = closed (snd (handler env w req)) \<and>
   created (snd (handler env w req)) \<le> 1 \<and>
   (\<not> valid env req \<longrightarrow>
      created (snd (handler env w req)) = 0 \<and> closed (snd (handler env w req)) = 0 \<and>
      calls (snd (handler env w req)) = []) \<and>
   (valid env req \<and> fst (getBrowserInstance w init) = Inr () \<longrightarrow>
      created (snd (handler env w req)) = 1 \<and> closed (snd (handler env w req)) = 1) \<and>
   (valid env req \<and> fst (getBrowserInstance w init) \<noteq> Inr () \<longrightarrow>
      created (snd (handler env w req)) = 0 \<and> closed (snd (handler env w req)) = 0)"
  using handler_trace [where env = env and w = w and req = req]
    handler_not_valid [where env = env and w = w and req = req]
  by simp

theorem browser_closed_once_witness:
  "valid None (request_of [(''url'', Str ''https://okpc.app/og'')]) \<and>
   fst (getBrowserInstance world_no_element init) = Inr () \<and>
   fst (pipeline world_no_element (request_of [(''url'', Str ''https://okpc.app/og'')])) =
     Inl (new_Error ''No #opengraph-image element found at path'') \<and>
   created (snd (handler None world_no_element (request_of [(''url'', Str ''https://okpc.app/og'')]))) = 1 \<and>
   closed (snd (handler None world_no_element (request_of [(''url'', Str ''https://okpc.app/og'')]))) = 1 \<and>
   count_list (calls (snd (handler None world_no_element (request_of [(''url'', Str ''https://okpc.app/og'')])))) Close = 1 \<and>
   \<not> valid None (request_of [(''url'', Str ''https://example.com/'')]) \<and>
   closed (snd (handler None world_ok (request_of [(''url'', Str ''https://example.com/'')]))) = 0 \<and>
   calls (snd (handler None world_ok (request_of [(''url'', Str ''https://example.com/'')]))) = [] \<and>
   fst (getBrowserInstance world_no_browser init) \<noteq> Inr () \<and>
   created (snd (handler None world_no_browser (request_of [(''url'', Str ''https://okpc.app/og'')]))) = 0 \<and>
   closed (snd (handler None world_no_browser (request_of [(''url'', Str ''https://okpc.app/og'')]))) = 0"
proof -
  have v: "valid None (request_of [(''url'', Str ''https://okpc.app/og'')])"
    by (simp add: valid_def request_of_def rx_eval)
  have n: "\<not> valid None (request_of [(''url'', Str ''https://example.com/'')])"
    by (simp add: valid_def request_of_def rx_eval)
  have g: "fst (getBrowserInstance world_no_element init) = Inr ()"
    by (simp add: world_eval)
  have b: "fst (getBrowserInstance world_no_browser init) \<noteq> Inr ()"
    by (simp add: world_eval)
  have p: "fst (pipeline world_no_element (request_of [(''url'', Str ''https://okpc.app/og'')])) =
      Inl (new_Error ''No #opengraph-image element found at path'')"
    by (simp add: pipeline_def try_block_def world_eval param_eval)
  show ?thesis
    using v n g b p
      browser_closed_once [of None world_no_element "request_of [(''url'', Str ''https://okpc.app/og'')]"]
      browser_closed_once [of None world_ok "request_of [(''url'', Str ''https://example.com/'')]"]
      browser_closed_once [of None world_no_browser "request_of [(''url'', Str ''https://okpc.app/og'')]"]
    by simp
qed

text \<open>
  C2: when a request has passed validation and the \<^verbatim>\<open>try\<close> block throws \<open>e\<close> (at the
  launch, at \<^verbatim>\<open>newPage\<close>, \<^verbatim>\<open>setViewport\<close>, \<^verbatim>\<open>goto\<close>, the wait for network idle, the
  wait for the element, the missing element or the screenshot: see \<open>pipeline_failure\<close>),
  the response is a redirect to exactly the \<open>fallback\<close> parameter when that is a non-empty
  string, and otherwise status 500 with the body
  \<^verbatim>\<open>{error: {code: "UNEXPECTED_ERROR", message: e.toString()}}\<close>.
\<close>

theorem failure_redirect_or_500:
  assumes "valid env req" and "fst (pipeline w req) = Inl e"
  shows "(\<forall>f. query req ''fallback'' = Some (Str f) \<and> f \<noteq> [] \<longrightarrow>
            res (snd (handler env w req)) = [Redirect f]) \<and>
         (\<not> (\<exists>f. query req ''fallback'' = Some (Str f) \<and> f \<noteq> []) \<longrightarrow>
            res (snd (handler env w req)) =
              [Status 500,
               Json (JObject [(''error'', JObject [(''code'', JString ''UNEXPECTED_ERROR''),
                                                   (''message'', JString (error_toString e))])])])"
proof -
  have r: "res (snd (handler env w req)) = catch_response req e"
    using assms by (rule handler_failure)
  show ?thesis
  proof (cases "query req ''fallback''")
    case None
    then show ?thesis
      by (simp add: r catch_response_def fallback_of_def unexpected_error_def)
  next
    case (Some q)
    then show ?thesis
      by (cases q) (simp_all add: r catch_response_def fallback_of_def unexpected_error_def)
  qed
qed

theorem failure_redirect_or_500_witness:
  "valid None (request_of [(''url'', Str ''https://okpc.app/og'')]) \<and>
   fst (pipeline world_no_element (request_of [(''url'', Str ''https://okpc.app/og'')])) =
     Inl (new_Error ''No #opengraph-image element found at path'') \<and>
   res (snd (handler None world_no_element (request_of [(''url'', Str ''https://okpc.app/og'')]))) =
     [Status 500,
      Json (JObject [(''error'', JObject [(''code'', JString ''UNEXPECTED_ERROR''),
         (''message'', JString ''Error: No #opengraph-image element found at path'')])])] \<and>
   valid None (request_of [(''url'', Str ''https://okpc.app/og''),
      (''fallback'', Str ''https://example.com/default.png'')]) \<and>
   fst (pipeline world_no_element (request_of [(''url'', Str ''https://okpc.app/og''),
      (''fallback'', Str ''https://example.com/default.png'')])) =
     Inl (new_Error ''No #opengraph-image element found at path'') \<and>
   res (snd (handler None world_no_element (request_of [(''url'', Str ''https://okpc.app/og''),
      (''fallback'', Str ''https://example.com/default.png'')]))) =
     [Redirect ''https://example.com/default.png'']"
proof -
  have v1: "valid None (request_of [(''url'', Str ''https://okpc.app/og'')])"
    by (simp add: valid_def request_of_def rx_eval)
  have p1: "fst (pipeline world_no_element (request_of [(''url'', Str ''https://okpc.app/og'')])) =
      Inl (new_Error ''No #opengraph-image element found at path'')"
    by (simp add: pipeline_def try_block_def world_eval param_eval)
  have v2: "valid None (request_of [(''url'', Str ''https://okpc.app/og''),
      (''fallback'', Str ''https://example.com/default.png'')])"
    by (simp add: valid_def request_of_def rx_eval)
  have p2: "fst (pipeline world_no_element (request_of [(''url'', Str ''https://okpc.app/og''),
      (''fallback'', Str ''https://example.com/default.png'')])) =
      Inl (new_Error ''No #opengraph-image element found at path'')"
    by (simp add: pipeline_def try_block_def world_eval param_eval)
  show ?thesis
    using v1 p1 v2 p2 failure_redirect_or_500 [OF v1 p1] failure_redirect_or_500 [OF v2 p2]
    by (simp add: request_of_def error_toString_def new_Error_def)
qed

text \<open>
  C9: the \<open>fallback\<close> parameter is used as it is. Whatever non-empty string \<open>f\<close> it holds,
  a failure after validation redirects to \<open>f\<close>; no condition on \<open>f\<close> is needed, in
  particular \<open>f\<close> is never matched against the allow-list.
\<close>

theorem fallback_redirect_verbatim:
  assumes "valid env req" and "fst (pipeline w req) = Inl e"
    and "query req ''fallback'' = Some (Str f)" and "f \<noteq> []"
  shows "res (snd (handler env w req)) = [Redirect f]"
proof -
  have "res (snd (handler env w req)) = catch_response req e"
    using assms(1,2) by (rule handler_failure)
  with assms(3,4) show ?thesis
    by (simp add: catch_response_def fallback_of_def)
qed

theorem fallback_redirect_verbatim_witness:
  "valid None (request_of [(''url'', Str ''https://okpc.app/og''),
      (''fallback'', Str ''javascript://evil.example/%0Aalert(1)'')]) \<and>
   fst (pipeline world_no_browser (request_of [(''url'', Str ''https://okpc.app/og''),
      (''fallback'', Str ''javascript://evil.example/%0Aalert(1)'')])) =
     Inl \<lparr>name = ''Error'', message = ''Failed to launch the browser process''\<rparr> \<and>
   query (request_of [(''url'', Str ''https://okpc.app/og''),
      (''fallback'', Str ''javascript://evil.example/%0Aalert(1)'')]) ''fallback'' =
     Some (Str ''javascript://evil.example/%0Aalert(1)'') \<and>
   ''javascript://evil.example/%0Aalert(1)'' \<noteq> [] \<and>
   \<not> allowed None ''javascript://evil.example/%0Aalert(1)'' \<and>
   res (snd (handler None world_no_browser (request_of [(''url'', Str ''https://okpc.app/og''),
      (''fallback'', Str ''javascript://evil.example/%0Aalert(1)'')]))) =
     [Redirect ''javascript://evil.example/%0Aalert(1)'']"
proof -
  have v: "valid None (request_of [(''url'', Str ''https://okpc.app/og''),
      (''fallback'', Str ''javascript://evil.example/%0Aalert(1)'')])"
    by (simp add: valid_def request_of_def rx_eval)
  have p: "fst (pipeline world_no_browser (request_of [(''url'', Str ''https://okpc.app/og''),
      (''fallback'', Str ''javascript://evil.example/%0Aalert(1)'')])) =
     Inl \<lparr>name = ''Error'', message = ''Failed to launch the browser process''\<rparr>"
    by (simp add: pipeline_def try_block_def world_eval param_eval)
  have q: "query (request_of [(''url'', Str ''https://okpc.app/og''),
      (''fallback'', Str ''javascript://evil.example/%0Aalert(1)'')]) ''fallback'' =
     Some (Str ''javascript://evil.example/%0Aalert(1)'')"
    by (simp add: request_of_def)
  have e: "''javascript://evil.example/%0Aalert(1)'' \<noteq> []" by simp
  have a: "\<not> allowed None ''javascript://evil.example/%0Aalert(1)''"
    by (simp add: rx_eval)
  show ?thesis
    using v p q a fallback_redirect_verbatim [OF v p q e] by simp
qed

text \<open>
  C4, as the code has it: the claim holds for every \<open>url\<close> value that is present and not the
  empty string (an empty \<open>url\<close> is answered as a missing one, by the first guard). If the
  value matches no pattern of the allow-list, the handler answers 400 with the body
  \<^verbatim>\<open>{error: {code: "INVALID_URL"}}\<close> and makes no call on the browser side. If it
  matches at least one pattern, validation passes: the handler goes on to acquire a browser
  and never answers 400. The localhost pattern is in the allow-list exactly when
  \<^verbatim>\<open>NODE_ENV\<close> is not \<^verbatim>\<open>"production"\<close>.
\<close>

theorem url_allow_list:
  assumes "truthy (query req ''url'')"
  shows "(\<not> (\<exists>hostname\<in>set (allowedHostnames env). test hostname (toString (query req ''url''))) \<longrightarrow>
            fst (handler env w req) = Inr () \<and>
            res (snd (handler env w req)) =
              [Status 400, Json (JObject [(''error'', JObject [(''code'', JString ''INVALID_URL'')])])] \<and>
            calls (snd (handler env w req)) = [] \<and>
            created (snd (handler env w req)) = 0) \<and>
         ((\<exists>hostname\<in>set (allowedHostnames env). test hostname (toString (query req ''url''))) \<longrightarrow>
            (\<exists>cs. calls (snd (handler env w req)) = ExecutablePath # cs) \<and>
            Status 400 \<notin> set (res (snd (handler env w req)))) \<and>
         (localhost \<in> set (allowedHostnames env) \<longleftrightarrow> env \<noteq> Some ''production'')"
proof -
  have a: "allowed env u \<longleftrightarrow> (\<exists>hostname\<in>set (allowedHostnames env). test hostname u)" for u
    by (simp add: allowed_def list_ex_iff)
  have 1: "fst (handler env w req) = Inr () \<and>
      res (snd (handler env w req)) =
        [Status 400, Json (JObject [(''error'', JObject [(''code'', JString ''INVALID_URL'')])])] \<and>
      calls (snd (handler env w req)) = [] \<and> created (snd (handler env w req)) = 0"
    if "\<not> allowed env (toString (query req ''url''))"
    using assms that by (simp add: handler_invalid init_def invalid_url_def)
  have 2: "(\<exists>cs. calls (snd (handler env w req)) = ExecutablePath # cs) \<and>
      Status 400 \<notin> set (res (snd (handler env w req)))"
    if "allowed env (toString (query req ''url''))"
  proof -
    from assms that have v: "valid env req" by (simp add: valid_def)
    show ?thesis
    proof (cases "pipeline w req")
      case (Pair r s1)
      show ?thesis
      proof (cases r)
        case (Inl e)
        with Pair handler_valid [OF v, where w = w] pipeline_calls [where w = w and req = req]
        show ?thesis
          by (auto simp: catch_response_def split: option.splits)
      next
        case (Inr u)
        with Pair handler_valid [OF v, where w = w] pipeline_calls [where w = w and req = req]
          pipeline_cases [where w = w and req = req]
        show ?thesis by auto
      qed
    qed
  qed
  have 3: "localhost \<in> set (allowedHostnames env) \<longleftrightarrow> env \<noteq> Some ''production''"
    by (simp add: allowedHostnames_def localhost_def okpc_app_def okpc_vercel_def)
  from 1 2 3 show ?thesis unfolding a by blast
qed

theorem url_allow_list_witness:
  "truthy (query (request_of [(''url'', Str ''https://example.com/'')]) ''url'') \<and>
   \<not> (\<exists>hostname\<in>set (allowedHostnames (Some ''production'')).
        test hostname (toString (query (request_of [(''url'', Str ''https://example.com/'')]) ''url''))) \<and>
   res (snd (handler (Some ''production'') world_ok (request_of [(''url'', Str ''https://example.com/'')]))) =
     [Status 400, Json (JObject [(''error'', JObject [(''code'', JString ''INVALID_URL'')])])] \<and>
   calls (snd (handler (Some ''production'') world_ok (request_of [(''url'', Str ''https://example.com/'')]))) = [] \<and>
   truthy (query (request_of [(''url'', Str ''http://localhost:3000/og'')]) ''url'') \<and>
   (\<exists>hostname\<in>set (allowedHostnames None).
        test hostname (toString (query (request_of [(''url'', Str ''http://localhost:3000/og'')]) ''url''))) \<and>
   (\<exists>cs. calls (snd (handler None world_ok (request_of [(''url'', Str ''http://localhost:3000/og'')]))) =
      ExecutablePath # cs) \<and>
   Status 400 \<notin> set (res (snd (handler None world_ok (request_of [(''url'', Str ''http://localhost:3000/og'')])))) \<and>
   localhost \<in> set (allowedHostnames None) \<and>
   localhost \<notin> set (allowedHostnames (Some ''production''))"
proof -
  have t1: "truthy (query (request_of [(''url'', Str ''https://example.com/'')]) ''url'')"
    by (simp add: request_of_def)
  have n1: "\<not> (\<exists>hostname\<in>set (allowedHostnames (Some ''production'')).
        test hostname (toString (query (request_of [(''url'', Str ''https://example.com/'')]) ''url'')))"
    by (simp add: request_of_def rx_eval)
  have t2: "truthy (query (request_of [(''url'', Str ''http://localhost:3000/og'')]) ''url'')"
    by (simp add: request_of_def)
  have m2: "\<exists>hostname\<in>set (allowedHostnames None).
        test hostname (toString (query (request_of [(''url'', Str ''http://localhost:3000/og'')]) ''url''))"
    by (simp add: request_of_def rx_eval)
  show ?thesis
    using t1 n1 t2 m2
      url_allow_list [OF t1, of "Some ''production''" world_ok]
      url_allow_list [OF t2, of None world_ok]
    by simp
qed

text \<open>
  The claim as stated fails for a \<open>url\<close> parameter that is present and empty
  (\<^verbatim>\<open>?url=\<close>): it matches no pattern, and the answer is \<^verbatim>\<open>MISSING_URL\<close>, not
  \<^verbatim>\<open>INVALID_URL\<close>.
\<close>

theorem url_allow_list_counterexample:
  "query (request_of [(''url'', Str [])]) ''url'' = Some (Str []) \<and>
   \<not> allowed None (toString (query (request_of [(''url'', Str [])]) ''url'')) \<and>
   res (snd (handler None world_ok (request_of [(''url'', Str [])]))) =
     [Status 400, Json (JObject [(''error'', JObject [(''code'', JString ''MISSING_URL'')])])] \<and>
   res (snd (handler None world_ok (request_of [(''url'', Str [])]))) \<noteq>
     [Status 400, Json (JObject [(''error'', JObject [(''code'', JString ''INVALID_URL'')])])]"
  by (simp add: request_of_def rx_eval handler_def respond_def init_def missing_url_def)

text \<open>
  C10: every pattern of the allow-list wants a \<open>/\<close> right after the host: a string a
  pattern accepts is a scheme (\<open>https://\<close> or \<open>http://\<close>, in any case), a non-empty host made
  of word characters, dashes, dots and colons, a \<open>/\<close>, and anything. So a url that has no
  \<open>/\<close> after its scheme, such as \<open>https://okpc.app\<close>, is accepted by no pattern and answered
  with \<^verbatim>\<open>INVALID_URL\<close>. Matching is case-insensitive: two strings that differ only in the
  case of ASCII letters are accepted by the same patterns. Every single-level subdomain of
  \<open>okpc.app\<close> (a non-empty label of word characters and dashes) followed by a path is
  accepted, and so is the bare host \<open>okpc.app\<close> followed by a path.
\<close>

theorem patterns_require_slash:
  "(hostname \<in> set (allowedHostnames env) \<and> test hostname u \<longrightarrow>
      (\<exists>sch host rest. u = sch @ host @ ''/'' @ rest \<and>
         (ci sch ''https://'' \<or> ci sch ''http://'') \<and> host \<noteq> [] \<and>
         (\<forall>c\<in>set host. hostChar c))) \<and>
   ((ci sch ''https://'' \<or> ci sch ''http://'') \<and> CHR ''/'' \<notin> set t \<longrightarrow>
      \<not> allowed env (sch @ t) \<and>
      (query req ''url'' = Some (Str (sch @ t)) \<longrightarrow>
         res (snd (handler env w req)) =
           [Status 400, Json (JObject [(''error'', JObject [(''code'', JString ''INVALID_URL'')])])])) \<and>
   (ci u v \<longrightarrow> test hostname u = test hostname v \<and> allowed env u = allowed env v) \<and>
   (label \<noteq> [] \<and> (\<forall>c\<in>set label. inClass WordOrDash c) \<longrightarrow>
      test okpc_app (''https://'' @ label @ ''.okpc.app/'' @ path) \<and>
      allowed env (''https://'' @ label @ ''.okpc.app/'' @ path)) \<and>
   test okpc_app (''https://okpc.app/'' @ path) \<and>
   allowed env (''https://okpc.app/'' @ path)"
proof -
  have 1: "hostname \<in> set (allowedHostnames env) \<and> test hostname u \<longrightarrow>
      (\<exists>sch host rest. u = sch @ host @ ''/'' @ rest \<and>
         (ci sch ''https://'' \<or> ci sch ''http://'') \<and> host \<noteq> [] \<and>
         (\<forall>c\<in>set host. hostChar c))"
  proof
    assume "hostname \<in> set (allowedHostnames env) \<and> test hostname u"
    then have "allowed env u" by (auto simp: allowed_def list_ex_iff)
    then have "hostShaped u" by (rule allowed_shape)
    then show "\<exists>sch host rest. u = sch @ host @ ''/'' @ rest \<and>
         (ci sch ''https://'' \<or> ci sch ''http://'') \<and> host \<noteq> [] \<and> (\<forall>c\<in>set host. hostChar c)"
      by (simp add: hostShaped_def)
  qed
  have 2: "(ci sch ''https://'' \<or> ci sch ''http://'') \<and> CHR ''/'' \<notin> set t \<longrightarrow>
      \<not> allowed env (sch @ t) \<and>
      (query req ''url'' = Some (Str (sch @ t)) \<longrightarrow>
         res (snd (handler env w req)) =
           [Status 400, Json (JObject [(''error'', JObject [(''code'', JString ''INVALID_URL'')])])])"
  proof
    assume h: "(ci sch ''https://'' \<or> ci sch ''http://'') \<and> CHR ''/'' \<notin> set t"
    then have s: "ci sch ''https://'' \<or> ci sch ''http://''" and t: "CHR ''/'' \<notin> set t"
      by simp_all
    have n: "\<not> allowed env (sch @ t)" using s t by (rule no_path_rejected)
    from s have "sch \<noteq> []" by (auto simp: ci_def)
    with n show "\<not> allowed env (sch @ t) \<and>
      (query req ''url'' = Some (Str (sch @ t)) \<longrightarrow>
         res (snd (handler env w req)) =
           [Status 400, Json (JObject [(''error'', JObject [(''code'', JString ''INVALID_URL'')])])])"
      by (simp add: handler_invalid init_def invalid_url_def)
  qed
  have 3: "ci u v \<longrightarrow> test hostname u = test hostname v \<and> allowed env u = allowed env v"
    using test_ci [of u v hostname] allowed_ci [of u v env] by (simp add: ci_def)
  have 6: "allowed env x" if "test okpc_app x" for x
    using that by (simp add: allowed_iff)
  have 4: "label \<noteq> [] \<and> (\<forall>c\<in>set label. inClass WordOrDash c) \<longrightarrow>
      test okpc_app (''https://'' @ label @ ''.okpc.app/'' @ path) \<and>
      allowed env (''https://'' @ label @ ''.okpc.app/'' @ path)"
  proof
    assume h: "label \<noteq> [] \<and> (\<forall>c\<in>set label. inClass WordOrDash c)"
    then have "test okpc_app (''https://'' @ label @ ''.'' @ ''okpc.app/'' @ path)"
      by (intro okpc_app_subdomain) (simp_all add: ci_refl)
    then have "test okpc_app (''https://'' @ label @ ''.okpc.app/'' @ path)" by simp
    then show "test okpc_app (''https://'' @ label @ ''.okpc.app/'' @ path) \<and>
      allowed env (''https://'' @ label @ ''.okpc.app/'' @ path)"
      using 6 by simp
  qed
  have 5: "test okpc_app (''https://okpc.app/'' @ path)"
  proof -
    have "test okpc_app (''https://'' @ ''okpc.app/'' @ path)"
      by (intro okpc_app_apex) (simp_all add: ci_refl)
    then show ?thesis by simp
  qed
  have 7: "allowed env (''https://okpc.app/'' @ path)" using 5 by (rule 6)
  from 1 2 3 4 5 7 show ?thesis by (intro conjI)
qed

theorem patterns_require_slash_witness:
  "okpc_app \<in> set (allowedHostnames None) \<and>
   test okpc_app ''https://preview.okpc.app/og/1'' \<and>
   ci ''https://'' ''https://'' \<and> CHR ''/'' \<notin> set ''okpc.app'' \<and>
   \<not> allowed None ''https://okpc.app'' \<and>
   query (request_of [(''url'', Str ''https://okpc.app'')]) ''url'' = Some (Str ''https://okpc.app'') \<and>
   res (snd (handler None world_ok (request_of [(''url'', Str ''https://okpc.app'')]))) =
     [Status 400, Json (JObject [(''error'', JObject [(''code'', JString ''INVALID_URL'')])])] \<and>
   ci ''https://preview.okpc.app/og/1'' ''HTTPS://Preview.OKPC.App/og/1'' \<and>
   test okpc_app ''HTTPS://Preview.OKPC.App/og/1'' \<and>
   allowed None ''HTTPS://Preview.OKPC.App/og/1'' \<and>
   ''preview'' \<noteq> [] \<and> list_all (inClass WordOrDash) ''preview'' \<and>
   allowed None ''https://preview.okpc.app/og/1'' \<and>
   allowed None ''https://okpc.app/og/1''"
proof -
  have m: "okpc_app \<in> set (allowedHostnames None)" by (simp add: allowedHostnames_def)
  have a: "test okpc_app ''https://preview.okpc.app/og/1''" by (simp add: rx_eval)
  have s: "ci ''https://'' ''https://''" by (simp add: ci_def)
  have t: "CHR ''/'' \<notin> set ''okpc.app''" by simp
  have q: "query (request_of [(''url'', Str ''https://okpc.app'')]) ''url'' = Some (Str ''https://okpc.app'')"
    by (simp add: request_of_def)
  have c: "ci ''https://preview.okpc.app/og/1'' ''HTTPS://Preview.OKPC.App/og/1''"
    by (simp add: ci_def canonicalize_def code_def)
  have l: "''preview'' \<noteq> []" by simp
  have k: "\<forall>c\<in>set ''preview''. inClass WordOrDash c" by (simp add: code_def)
  have k': "list_all (inClass WordOrDash) ''preview''" by (simp add: code_def)
  note th = patterns_require_slash [of okpc_app None "''https://preview.okpc.app/og/1''" "''https://''"
        "''okpc.app''" "request_of [(''url'', Str ''https://okpc.app'')]" world_ok
        "''HTTPS://Preview.OKPC.App/og/1''" "''preview''" "''og/1''"]
  note th2 = th [THEN conjunct2, THEN conjunct1]
  note th3 = th [THEN conjunct2, THEN conjunct2, THEN conjunct1]
  note th4 = th [THEN conjunct2, THEN conjunct2, THEN conjunct2, THEN conjunct1]
  note th6 = th [THEN conjunct2, THEN conjunct2, THEN conjunct2, THEN conjunct2, THEN conjunct2]
  from s t have "ci ''https://'' ''https://'' \<or> ci ''https://'' ''http://''" by simp
  with t th2 have "\<not> allowed None (''https://'' @ ''okpc.app'') \<and>
      (query (request_of [(''url'', Str ''https://okpc.app'')]) ''url'' = Some (Str (''https://'' @ ''okpc.app'')) \<longrightarrow>
         res (snd (handler None world_ok (request_of [(''url'', Str ''https://okpc.app'')]))) =
           [Status 400, Json (JObject [(''error'', JObject [(''code'', JString ''INVALID_URL'')])])])"
    by blast
  with q have n: "\<not> allowed None ''https://okpc.app''" and
    r: "res (snd (handler None world_ok (request_of [(''url'', Str ''https://okpc.app'')]))) =
     [Status 400, Json (JObject [(''error'', JObject [(''code'', JString ''INVALID_URL'')])])]"
    by simp_all
  from th4 l k have "allowed None (''https://'' @ ''preview'' @ ''.okpc.app/'' @ ''og/1'')" by blast
  then have p: "allowed None ''https://preview.okpc.app/og/1''" by simp
  from th6 have x: "allowed None ''https://okpc.app/og/1''" by simp
  from th3 c have "test okpc_app ''https://preview.okpc.app/og/1'' = test okpc_app ''HTTPS://Preview.OKPC.App/og/1''"
    and "allowed None ''https://preview.okpc.app/og/1'' = allowed None ''HTTPS://Preview.OKPC.App/og/1''"
    by blast+
  with a p have u: "test okpc_app ''HTTPS://Preview.OKPC.App/og/1''"
    and u': "allowed None ''HTTPS://Preview.OKPC.App/og/1''" by simp_all
  from m a s t n q r c u u' l k' p x show ?thesis by (intro conjI)
qed

text \<open>
  C5, as the code has it: the effective pixel density is \<^verbatim>\<open>parseInt(pixelDensity) || 1\<close>.
  It is 1 when the parameter does not parse (\<^verbatim>\<open>NaN\<close>) or parses to 0, and otherwise the
  value \<^verbatim>\<open>parseInt\<close> returns, a negative one included; in particular it is \<open>n\<close> when the
  parameter is the decimal digits of a positive \<open>n\<close> below \<open>2^53\<close>. Every
  \<^verbatim>\<open>setViewport\<close> call the handler makes is for 1280 by 720 with the effective value as
  device scale factor, and the call is made as soon as the request is valid and the browser
  and its page were obtained.
\<close>

theorem pixelDensity_default:
  "(parseInt (toString (query req ''pixelDensity'')) = NaN \<or>
    parseInt (toString (query req ''pixelDensity'')) = Num 0 \<longrightarrow> pixelDensity_of req = Num 1) \<and>
   (parseInt (toString (query req ''pixelDensity'')) \<noteq> NaN \<and>
    parseInt (toString (query req ''pixelDensity'')) \<noteq> Num 0 \<longrightarrow>
      pixelDensity_of req = parseInt (toString (query req ''pixelDensity''))) \<and>
   (0 < n \<and> n < 2 ^ 53 \<and> query req ''pixelDensity'' = Some (Str (decimal n)) \<longrightarrow>
      pixelDensity_of req = Num (int n)) \<and>
   (\<forall>v. SetViewport v \<in> set (calls (snd (handler env w req))) \<longrightarrow>
      v = \<lparr>width = 1280, height = 720, deviceScaleFactor = pixelDensity_of req\<rparr>) \<and>
   (valid env req \<and> fst (getBrowserInstance w init) = Inr () \<and> newPage w = Inr () \<longrightarrow>
      SetViewport \<lparr>width = 1280, height = 720, deviceScaleFactor = pixelDensity_of req\<rparr>
        \<in> set (calls (snd (handler env w req))))"
proof -
  have 1: "parseInt (toString (query req ''pixelDensity'')) = NaN \<or>
    parseInt (toString (query req ''pixelDensity'')) = Num 0 \<longrightarrow> pixelDensity_of req = Num 1"
    by (auto simp: pixelDensity_of_def)
  have 2: "parseInt (toString (query req ''pixelDensity'')) \<noteq> NaN \<and>
    parseInt (toString (query req ''pixelDensity'')) \<noteq> Num 0 \<longrightarrow>
      pixelDensity_of req = parseInt (toString (query req ''pixelDensity''))"
    by (cases "parseInt (toString (query req ''pixelDensity''))")
      (simp_all add: pixelDensity_of_def)
  have 3: "0 < n \<and> n < 2 ^ 53 \<and> query req ''pixelDensity'' = Some (Str (decimal n)) \<longrightarrow>
      pixelDensity_of req = Num (int n)"
    by (simp add: pixelDensity_of_def parseInt_decimal toNumber_exact)
  have 4: "\<forall>v. SetViewport v \<in> set (calls (snd (handler env w req))) \<longrightarrow>
      v = \<lparr>width = 1280, height = 720, deviceScaleFactor = pixelDensity_of req\<rparr>"
    using handler_trace [where env = env and w = w and req = req] by (rule conjunct1)
  have 5: "valid env req \<and> fst (getBrowserInstance w init) = Inr () \<and> newPage w = Inr () \<longrightarrow>
      SetViewport \<lparr>width = 1280, height = 720, deviceScaleFactor = pixelDensity_of req\<rparr>
        \<in> set (calls (snd (handler env w req)))"
    using handler_viewport [of env req w] by blast
  from 1 2 3 4 5 show ?thesis by (intro conjI)
qed

theorem pixelDensity_default_witness:
  "parseInt (toString (query (request_of [(''url'', Str ''https://okpc.app/og'')]) ''pixelDensity'')) = NaN \<and>
   pixelDensity_of (request_of [(''url'', Str ''https://okpc.app/og'')]) = Num 1 \<and>
   parseInt (toString (query (request_of [(''url'', Str ''https://okpc.app/og''),
      (''pixelDensity'', Str ''2'')]) ''pixelDensity'')) = Num 2 \<and>
   (0 :: nat) < 2 \<and> (2 :: nat) < 2 ^ 53 \<and> decimal 2 = ''2'' \<and>
   pixelDensity_of (request_of [(''url'', Str ''https://okpc.app/og''), (''pixelDensity'', Str ''2'')]) = Num 2 \<and>
   valid None (request_of [(''url'', Str ''https://okpc.app/og''), (''pixelDensity'', Str ''2'')]) \<and>
   fst (getBrowserInstance world_ok init) = Inr () \<and> newPage world_ok = Inr () \<and>
   SetViewport \<lparr>width = 1280, height = 720, deviceScaleFactor = Num 2\<rparr>
     \<in> set (calls (snd (handler None world_ok (request_of [(''url'', Str ''https://okpc.app/og''),
          (''pixelDensity'', Str ''2'')]))))"
proof -
  have a: "parseInt (toString (query (request_of [(''url'', Str ''https://okpc.app/og'')]) ''pixelDensity'')) = NaN"
    by (simp add: param_eval)
  have b: "parseInt (toString (query (request_of [(''url'', Str ''https://okpc.app/og''),
      (''pixelDensity'', Str ''2'')]) ''pixelDensity'')) = Num 2"
    by (simp add: param_eval)
  have d: "decimal 2 = ''2''" by (simp add: decimal.simps char_of_eq_iff)
  have r: "(0 :: nat) < 2" "(2 :: nat) < 2 ^ 53" by simp_all
  have q: "query (request_of [(''url'', Str ''https://okpc.app/og''),
      (''pixelDensity'', Str ''2'')]) ''pixelDensity'' = Some (Str (decimal 2))"
    by (simp add: request_of_def d)
  have v: "valid None (request_of [(''url'', Str ''https://okpc.app/og''), (''pixelDensity'', Str ''2'')])"
    by (simp add: valid_def request_of_def rx_eval)
  have g: "fst (getBrowserInstance world_ok init) = Inr ()" by (simp add: world_eval)
  have n: "newPage world_ok = Inr ()" by (simp add: world_ok_def)
  note t1 = pixelDensity_default [of "request_of [(''url'', Str ''https://okpc.app/og'')]" 2 None world_ok]
  note t2 = pixelDensity_default [of "request_of [(''url'', Str ''https://okpc.app/og''),
      (''pixelDensity'', Str ''2'')]" 2 None world_ok]
  from t1 a have c1: "pixelDensity_of (request_of [(''url'', Str ''https://okpc.app/og'')]) = Num 1"
    by blast
  from t2 b have c2: "pixelDensity_of (request_of [(''url'', Str ''https://okpc.app/og''),
      (''pixelDensity'', Str ''2'')]) = Num 2"
    by simp
  from t2 r q have "pixelDensity_of (request_of [(''url'', Str ''https://okpc.app/og''),
      (''pixelDensity'', Str ''2'')]) = Num (int 2)"
    by blast
  from t2 v g n have "SetViewport \<lparr>width = 1280, height = 720, deviceScaleFactor =
      pixelDensity_of (request_of [(''url'', Str ''https://okpc.app/og''), (''pixelDensity'', Str ''2'')])\<rparr>
     \<in> set (calls (snd (handler None world_ok (request_of [(''url'', Str ''https://okpc.app/og''),
          (''pixelDensity'', Str ''2'')]))))"
    by blast
  with c2 have c3: "SetViewport \<lparr>width = 1280, height = 720, deviceScaleFactor = Num 2\<rparr>
     \<in> set (calls (snd (handler None world_ok (request_of [(''url'', Str ''https://okpc.app/og''),
          (''pixelDensity'', Str ''2'')]))))"
    by simp
  from a c1 b r d c2 v g n c3 show ?thesis by (intro conjI)
qed


text \<open>
  The claim as stated fails for a negative value: \<^verbatim>\<open>pixelDensity=-2\<close> parses to \<open>-2\<close>,
  which is not positive, and the viewport is set with device scale factor \<open>-2\<close>, not 1.
\<close>

theorem pixelDensity_default_counterexample:
  "parseInt (toString (query (request_of [(''url'', Str ''https://okpc.app/og''),
      (''pixelDensity'', Str ''-2'')]) ''pixelDensity'')) = Num (- 2) \<and>
   (- 2 :: int) \<le> 0 \<and>
   pixelDensity_of (request_of [(''url'', Str ''https://okpc.app/og''), (''pixelDensity'', Str ''-2'')]) = Num (- 2) \<and>
   pixelDensity_of (request_of [(''url'', Str ''https://okpc.app/og''), (''pixelDensity'', Str ''-2'')]) \<noteq> Num 1 \<and>
   SetViewport \<lparr>width = 1280, height = 720, deviceScaleFactor = Num (- 2)\<rparr>
     \<in> set (calls (snd (handler None world_ok (request_of [(''url'', Str ''https://okpc.app/og''),
          (''pixelDensity'', Str ''-2'')]))))"
  by (simp add: handler_eval world_eval param_eval rx_eval)

text \<open>
  C6, as the code has it: the effective quality is \<^verbatim>\<open>parseInt(quality) || 70\<close>. It is 70
  when the parameter does not parse, and the parsed value when that is an integer from 1 to
  100; in particular it is \<open>n\<close> when the parameter is the decimal digits of an \<open>n\<close> from 1 to
  100. A quality that parses to 0 gives 70.
\<close>

theorem quality_default:
  "(parseInt (toString (query req ''quality'')) = NaN \<longrightarrow> quality_of req = Num 70) \<and>
   (\<forall>k. parseInt (toString (query req ''quality'')) = Num k \<and> 1 \<le> k \<and> k \<le> 100 \<longrightarrow>
      quality_of req = Num k) \<and>
   (1 \<le> n \<and> n \<le> 100 \<and> query req ''quality'' = Some (Str (decimal n)) \<longrightarrow>
      quality_of req = Num (int n)) \<and>
   (parseInt (toString (query req ''quality'')) = Num 0 \<longrightarrow> quality_of req = Num 70)"
proof -
  have 1: "parseInt (toString (query req ''quality'')) = NaN \<longrightarrow> quality_of req = Num 70"
    by (simp add: quality_of_def)
  have 2: "\<forall>k. parseInt (toString (query req ''quality'')) = Num k \<and> 1 \<le> k \<and> k \<le> 100 \<longrightarrow>
      quality_of req = Num k"
    by (simp add: quality_of_def)
  have 3: "1 \<le> n \<and> n \<le> 100 \<and> query req ''quality'' = Some (Str (decimal n)) \<longrightarrow>
      quality_of req = Num (int n)"
  proof
    assume h: "1 \<le> n \<and> n \<le> 100 \<and> query req ''quality'' = Some (Str (decimal n))"
    then have "n < 2 ^ 53" by simp
    then have "parseInt (decimal n) = Num (int n)"
      by (simp add: parseInt_decimal toNumber_exact)
    with h show "quality_of req = Num (int n)" by (simp add: quality_of_def)
  qed
  have 4: "parseInt (toString (query req ''quality'')) = Num 0 \<longrightarrow> quality_of req = Num 70"
    by (simp add: quality_of_def)
  from 1 2 3 4 show ?thesis by (intro conjI)
qed

theorem quality_default_witness:
  "parseInt (toString (query (request_of [(''quality'', Str ''best'')]) ''quality'')) = NaN \<and>
   quality_of (request_of [(''quality'', Str ''best'')]) = Num 70 \<and>
   parseInt (toString (query (request_of [(''quality'', Str ''85'')]) ''quality'')) = Num 85 \<and>
   (1 :: int) \<le> 85 \<and> (85 :: int) \<le> 100 \<and>
   (1 :: nat) \<le> 85 \<and> (85 :: nat) \<le> 100 \<and> decimal 85 = ''85'' \<and>
   quality_of (request_of [(''quality'', Str ''85'')]) = Num 85 \<and>
   parseInt (toString (query (request_of [(''quality'', Str ''0'')]) ''quality'')) = Num 0 \<and>
   quality_of (request_of [(''quality'', Str ''0'')]) = Num 70"
proof -
  have a: "parseInt (toString (query (request_of [(''quality'', Str ''best'')]) ''quality'')) = NaN"
    by (simp add: param_eval)
  have b: "parseInt (toString (query (request_of [(''quality'', Str ''85'')]) ''quality'')) = Num 85"
    by (simp add: param_eval)
  have z: "parseInt (toString (query (request_of [(''quality'', Str ''0'')]) ''quality'')) = Num 0"
    by (simp add: param_eval)
  have i: "(1 :: int) \<le> 85" "(85 :: int) \<le> 100" by simp_all
  have k: "(1 :: nat) \<le> 85" "(85 :: nat) \<le> 100" by simp_all
  have d: "decimal 85 = ''85''" by (simp add: decimal.simps char_of_eq_iff)
  have q: "query (request_of [(''quality'', Str ''85'')]) ''quality'' = Some (Str (decimal 85))"
    by (simp add: request_of_def d)
  note t1 = quality_default [of "request_of [(''quality'', Str ''best'')]" 85]
  note t2 = quality_default [of "request_of [(''quality'', Str ''85'')]" 85]
  note t3 = quality_default [of "request_of [(''quality'', Str ''0'')]" 85]
  from t1 a have c1: "quality_of (request_of [(''quality'', Str ''best'')]) = Num 70" by blast
  from t2 b i have c2: "quality_of (request_of [(''quality'', Str ''85'')]) = Num 85" by blast
  from t2 k q have "quality_of (request_of [(''quality'', Str ''85'')]) = Num (int 85)" by blast
  from t3 z have c3: "quality_of (request_of [(''quality'', Str ''0'')]) = Num 70" by blast
  from a c1 b i k d c2 z c3 show ?thesis by (intro conjI)
qed

text \<open>
  The claim as stated fails at the lower end of the range: \<^verbatim>\<open>quality=0\<close> parses to 0,
  which is in 0 to 100, and the effective quality is 70; with \<^verbatim>\<open>format=jpeg\<close> the
  encoder is called with quality 70.
\<close>

theorem quality_default_counterexample:
  "parseInt (toString (query (request_of [(''url'', Str ''https://okpc.app/og''),
      (''format'', Str ''jpeg''), (''quality'', Str ''0'')]) ''quality'')) = Num 0 \<and>
   (0 :: int) \<le> 0 \<and> (0 :: int) \<le> 100 \<and>
   quality_of (request_of [(''url'', Str ''https://okpc.app/og''),
      (''format'', Str ''jpeg''), (''quality'', Str ''0'')]) = Num 70 \<and>
   quality_of (request_of [(''url'', Str ''https://okpc.app/og''),
      (''format'', Str ''jpeg''), (''quality'', Str ''0'')]) \<noteq> Num 0 \<and>
   Screenshot \<lparr>so_type = ''jpeg'', so_quality = Some (Num 70)\<rparr>
     \<in> set (calls (snd (handler None world_ok (request_of [(''url'', Str ''https://okpc.app/og''),
      (''format'', Str ''jpeg''), (''quality'', Str ''0'')]))))"
  by (simp add: handler_eval world_eval param_eval rx_eval)

text \<open>
  C7: the resolved format is the \<open>format\<close> parameter when that is one of the strings
  \<open>png\<close>, \<open>jpeg\<close>, \<open>webp\<close>, and \<open>png\<close> in every other case (absent, another string, an
  array). When the handler sends an image, the \<open>Content-Type\<close> header it has set is
  \<open>image/\<close> followed by the resolved format, and the screenshot was taken. Every
  screenshot call has the resolved format as its type, no quality when the format is \<open>png\<close>,
  and the effective quality when it is \<open>jpeg\<close> or \<open>webp\<close>.
\<close>

theorem format_resolution:
  "(\<forall>f. query req ''format'' = Some (Str f) \<and> f \<in> {''png'', ''jpeg'', ''webp''} \<longrightarrow>
      format_of req = f) \<and>
   (\<not> (\<exists>f. query req ''format'' = Some (Str f) \<and> f \<in> {''png'', ''jpeg'', ''webp''}) \<longrightarrow>
      format_of req = ''png'') \<and>
   (Send b \<in> set (res (snd (handler env w req))) \<longrightarrow>
      SetHeader ''Content-Type'' (''image/'' @ format_of req) \<in> set (res (snd (handler env w req))) \<and>
      (\<forall>v. SetHeader ''Content-Type'' v \<in> set (res (snd (handler env w req))) \<longrightarrow>
         v = ''image/'' @ format_of req) \<and>
      (\<exists>so. Screenshot so \<in> set (calls (snd (handler env w req))))) \<and>
   (\<forall>so. Screenshot so \<in> set (calls (snd (handler env w req))) \<longrightarrow>
      so_type so = format_of req \<and>
      (format_of req = ''png'' \<longrightarrow> so_quality so = None) \<and>
      (format_of req \<noteq> ''png'' \<longrightarrow> so_quality so = Some (quality_of req)))"
proof -
  have 1: "\<forall>f. query req ''format'' = Some (Str f) \<and> f \<in> {''png'', ''jpeg'', ''webp''} \<longrightarrow>
      format_of req = f"
    by (auto simp: format_of_def allowedFormats_def)
  have 2: "\<not> (\<exists>f. query req ''format'' = Some (Str f) \<and> f \<in> {''png'', ''jpeg'', ''webp''}) \<longrightarrow>
      format_of req = ''png''"
  proof
    assume n: "\<not> (\<exists>f. query req ''format'' = Some (Str f) \<and> f \<in> {''png'', ''jpeg'', ''webp''})"
    show "format_of req = ''png''"
    proof (cases "query req ''format''")
      case None
      then show ?thesis by (simp add: format_of_def)
    next
      case (Some q)
      with n show ?thesis by (cases q) (auto simp: format_of_def allowedFormats_def)
    qed
  qed
  have 3: "Send b \<in> set (res (snd (handler env w req))) \<longrightarrow>
      SetHeader ''Content-Type'' (''image/'' @ format_of req) \<in> set (res (snd (handler env w req))) \<and>
      (\<forall>v. SetHeader ''Content-Type'' v \<in> set (res (snd (handler env w req))) \<longrightarrow>
         v = ''image/'' @ format_of req) \<and>
      (\<exists>so. Screenshot so \<in> set (calls (snd (handler env w req))))"
  proof
    assume "Send b \<in> set (res (snd (handler env w req)))"
    then have v: "valid env req" and p: "fst (pipeline w req) = Inr ()"
      using handler_sent by blast+
    from handler_success [OF v p] obtain b' where
      r: "res (snd (handler env w req)) = [SetHeader ''Cache-Control'' cache_control,
               SetHeader ''Content-Type'' (''image/'' @ format_of req), Send b']"
      by blast
    from handler_screenshot [OF v p]
    have "\<exists>so. Screenshot so \<in> set (calls (snd (handler env w req)))" by blast
    with r show "SetHeader ''Content-Type'' (''image/'' @ format_of req) \<in> set (res (snd (handler env w req))) \<and>
      (\<forall>v. SetHeader ''Content-Type'' v \<in> set (res (snd (handler env w req))) \<longrightarrow>
         v = ''image/'' @ format_of req) \<and>
      (\<exists>so. Screenshot so \<in> set (calls (snd (handler env w req))))"
      by simp
  qed
  have 4: "\<forall>so. Screenshot so \<in> set (calls (snd (handler env w req))) \<longrightarrow>
      so_type so = format_of req \<and>
      (format_of req = ''png'' \<longrightarrow> so_quality so = None) \<and>
      (format_of req \<noteq> ''png'' \<longrightarrow> so_quality so = Some (quality_of req))"
  proof (intro allI impI)
    fix so
    assume "Screenshot so \<in> set (calls (snd (handler env w req)))"
    with handler_trace [where env = env and w = w and req = req]
    have "so = \<lparr>so_type = format_of req,
             so_quality = (if format_of req = ''png'' then None else Some (quality_of req))\<rparr>"
      by blast
    then show "so_type so = format_of req \<and>
      (format_of req = ''png'' \<longrightarrow> so_quality so = None) \<and>
      (format_of req \<noteq> ''png'' \<longrightarrow> so_quality so = Some (quality_of req))"
      by simp
  qed
  from 1 2 3 4 show ?thesis by (intro conjI)
qed

theorem format_resolution_witness:
  "query (request_of [(''url'', Str ''https://okpc.app/og''), (''format'', Str ''jpeg'')]) ''format'' =
     Some (Str ''jpeg'') \<and>
   format_of (request_of [(''url'', Str ''https://okpc.app/og''), (''format'', Str ''jpeg'')]) = ''jpeg'' \<and>
   format_of (request_of [(''url'', Str ''https://okpc.app/og''), (''format'', Str ''gif'')]) = ''png'' \<and>
   Send [137, 80, 78, 71] \<in> set (res (snd (handler None world_ok
     (request_of [(''url'', Str ''https://okpc.app/og''), (''format'', Str ''jpeg'')])))) \<and>
   SetHeader ''Content-Type'' ''image/jpeg'' \<in> set (res (snd (handler None world_ok
     (request_of [(''url'', Str ''https://okpc.app/og''), (''format'', Str ''jpeg'')])))) \<and>
   Screenshot \<lparr>so_type = ''jpeg'', so_quality = Some (Num 70)\<rparr> \<in> set (calls (snd (handler None world_ok
     (request_of [(''url'', Str ''https://okpc.app/og''), (''format'', Str ''jpeg'')])))) \<and>
   so_quality \<lparr>so_type = ''jpeg'', so_quality = Some (Num 70)\<rparr> =
     Some (quality_of (request_of [(''url'', Str ''https://okpc.app/og''), (''format'', Str ''jpeg'')]))"
proof -
  have q: "query (request_of [(''url'', Str ''https://okpc.app/og''), (''format'', Str ''jpeg'')]) ''format'' =
     Some (Str ''jpeg'')"
    by (simp add: request_of_def)
  have m: "''jpeg'' \<in> {''png'', ''jpeg'', ''webp''}" by simp
  have n: "\<not> (\<exists>f. query (request_of [(''url'', Str ''https://okpc.app/og''), (''format'', Str ''gif'')]) ''format'' =
     Some (Str f) \<and> f \<in> {''png'', ''jpeg'', ''webp''})"
    by (simp add: request_of_def)
  have s: "Send [137, 80, 78, 71] \<in> set (res (snd (handler None world_ok
     (request_of [(''url'', Str ''https://okpc.app/og''), (''format'', Str ''jpeg'')]))))"
    by (simp add: handler_eval world_eval param_eval rx_eval)
  have c: "Screenshot \<lparr>so_type = ''jpeg'', so_quality = Some (Num 70)\<rparr> \<in> set (calls (snd (handler None world_ok
     (request_of [(''url'', Str ''https://okpc.app/og''), (''format'', Str ''jpeg'')]))))"
    by (simp add: handler_eval world_eval param_eval rx_eval)
  note t1 = format_resolution [of "request_of [(''url'', Str ''https://okpc.app/og''), (''format'', Str ''jpeg'')]"
      "[137, 80, 78, 71]" None world_ok]
  note t2 = format_resolution [of "request_of [(''url'', Str ''https://okpc.app/og''), (''format'', Str ''gif'')]"
      "[137, 80, 78, 71]" None world_ok]
  from t1 q m have f1: "format_of (request_of [(''url'', Str ''https://okpc.app/og''), (''format'', Str ''jpeg'')]) = ''jpeg''"
    by blast
  from t2 n have f2: "format_of (request_of [(''url'', Str ''https://okpc.app/og''), (''format'', Str ''gif'')]) = ''png''"
    by blast
  from t1 s have "SetHeader ''Content-Type'' (''image/'' @
      format_of (request_of [(''url'', Str ''https://okpc.app/og''), (''format'', Str ''jpeg'')])) \<in>
      set (res (snd (handler None world_ok
     (request_of [(''url'', Str ''https://okpc.app/og''), (''format'', Str ''jpeg'')]))))"
    by blast
  with f1 have h: "SetHeader ''Content-Type'' ''image/jpeg'' \<in> set (res (snd (handler None world_ok
     (request_of [(''url'', Str ''https://okpc.app/og''), (''format'', Str ''jpeg'')]))))"
    by simp
  from t1 c have "format_of (request_of [(''url'', Str ''https://okpc.app/og''), (''format'', Str ''jpeg'')]) \<noteq> ''png'' \<longrightarrow>
     so_quality \<lparr>so_type = ''jpeg'', so_quality = Some (Num 70)\<rparr> =
     Some (quality_of (request_of [(''url'', Str ''https://okpc.app/og''), (''format'', Str ''jpeg'')]))"
    by blast
  with f1 have k: "so_quality \<lparr>so_type = ''jpeg'', so_quality = Some (Num 70)\<rparr> =
     Some (quality_of (request_of [(''url'', Str ''https://okpc.app/og''), (''format'', Str ''jpeg'')]))"
    by simp
  from q f1 f2 s h c k show ?thesis by (intro conjI)
qed

text \<open>
  C8: when the render succeeds, the response is exactly: the header
  \<open>Cache-Control: s-maxage=28800, stale-while-revalidate=86400\<close>, the \<open>Content-Type\<close>
  header, and the image. The two numbers are the 8 hours and the 24 hours of the source,
  in seconds.
\<close>

theorem cache_control_on_success:
  assumes "valid env req" and "fst (pipeline w req) = Inr ()"
  shows "(\<exists>b. res (snd (handler env w req)) =
            [SetHeader ''Cache-Control'' ''s-maxage=28800, stale-while-revalidate=86400'',
             SetHeader ''Content-Type'' (''image/'' @ format_of req), Send b]) \<and>
         cache_control = ''s-maxage=28800, stale-while-revalidate=86400'' \<and>
         decimal (60 * 60 * 8) = ''28800'' \<and> decimal (60 * 60 * 24) = ''86400''"
proof -
  from handler_success [OF assms] obtain b where
    "res (snd (handler env w req)) = [SetHeader ''Cache-Control'' cache_control,
               SetHeader ''Content-Type'' (''image/'' @ format_of req), Send b]"
    by blast
  then have "\<exists>b. res (snd (handler env w req)) =
            [SetHeader ''Cache-Control'' ''s-maxage=28800, stale-while-revalidate=86400'',
             SetHeader ''Content-Type'' (''image/'' @ format_of req), Send b]"
    by (simp add: cache_control_value)
  moreover have "decimal (60 * 60 * 8) = ''28800''" "decimal (60 * 60 * 24) = ''86400''"
    by (simp_all add: decimal.simps char_of_eq_iff)
  ultimately show ?thesis by (simp add: cache_control_value)
qed

theorem cache_control_on_success_witness:
  "valid None (request_of [(''url'', Str ''https://okpc.app/og'')]) \<and>
   fst (pipeline world_ok (request_of [(''url'', Str ''https://okpc.app/og'')])) = Inr () \<and>
   SetHeader ''Cache-Control'' ''s-maxage=28800, stale-while-revalidate=86400'' \<in>
     set (res (snd (handler None world_ok (request_of [(''url'', Str ''https://okpc.app/og'')])))) \<and>
   length (res (snd (handler None world_ok (request_of [(''url'', Str ''https://okpc.app/og'')])))) = 3"
proof -
  have v: "valid None (request_of [(''url'', Str ''https://okpc.app/og'')])"
    by (simp add: valid_def request_of_def rx_eval)
  have p: "fst (pipeline world_ok (request_of [(''url'', Str ''https://okpc.app/og'')])) = Inr ()"
    by (simp add: pipeline_def try_block_def world_eval param_eval)
  from cache_control_on_success [OF v p] obtain b where
    "res (snd (handler None world_ok (request_of [(''url'', Str ''https://okpc.app/og'')]))) =
            [SetHeader ''Cache-Control'' ''s-maxage=28800, stale-while-revalidate=86400'',
             SetHeader ''Content-Type'' (''image/'' @ format_of (request_of [(''url'', Str ''https://okpc.app/og'')])), Send b]"
    by blast
  then have "SetHeader ''Cache-Control'' ''s-maxage=28800, stale-while-revalidate=86400'' \<in>
     set (res (snd (handler None world_ok (request_of [(''url'', Str ''https://okpc.app/og'')])))) \<and>
   length (res (snd (handler None world_ok (request_of [(''url'', Str ''https://okpc.app/og'')])))) = 3"
    by simp
  with v p show ?thesis by simp
qed

end
